theory Spec2Isabelle
  imports Complex_Main "HOL-Library.Monad_Syntax"
begin

section \<open>Numbers, rectangles and the tile grid\<close>

text \<open>
  The simulation of \<^verbatim>\<open>app.py\<close> computes with Python floats and ints. Floats are modelled
  as exact reals (every tuning constant is a decimal fraction, and the controller uses
  only \<open>+\<close>, \<open>-\<close>, \<open>*\<close>, \<open>/\<close>, comparisons, \<open>abs\<close>, \<open>min\<close>, \<open>max\<close> and truncation), ints as
  \<open>int\<close>. Rounding error is not modelled. A raised \<^verbatim>\<open>IndexError\<close>, the only exception the
  modelled code can raise, is the value \<open>None\<close>.
\<close>

definition TILE :: int where "TILE = 48"

text \<open>Python's \<^verbatim>\<open>int(x)\<close> on a float truncates towards zero.\<close>

definition py_int :: "real \<Rightarrow> int" where
  "py_int v = (if 0 \<le> v then \<lfloor>v\<rfloor> else \<lceil>v\<rceil>)"

text \<open>\<^verbatim>\<open>clamp(v, a, b)\<close>: \<^verbatim>\<open>return a if v < a else b if v > b else v\<close>.\<close>

definition clamp :: "real \<Rightarrow> real \<Rightarrow> real \<Rightarrow> real" where
  "clamp v a b = (if v < a then a else if b < v then b else v)"

text \<open>
  \<^verbatim>\<open>pygame.Rect(left, top, width, height)\<close> with integer fields; \<open>rright\<close> and \<open>rbottom\<close> are
  the derived attributes \<open>left + width\<close> and \<open>top + height\<close>. \<^verbatim>\<open>inflate(dx, dy)\<close> keeps the
  centre: it moves the corner by \<open>dx / 2\<close>, \<open>dy / 2\<close> in C integer division (towards zero)
  and adds \<open>dx\<close>, \<open>dy\<close> to the size. \<^verbatim>\<open>colliderect\<close> is a strict overlap test, false for a
  rectangle of zero width or height.
\<close>

record rect =
  rleft :: int
  rtop :: int
  rwidth :: int
  rheight :: int

definition Rect :: "int \<Rightarrow> int \<Rightarrow> int \<Rightarrow> int \<Rightarrow> rect" where
  "Rect l t w h = \<lparr>rleft = l, rtop = t, rwidth = w, rheight = h\<rparr>"

definition rright :: "rect \<Rightarrow> int" where
  "rright r = rleft r + rwidth r"

definition rbottom :: "rect \<Rightarrow> int" where
  "rbottom r = rtop r + rheight r"

definition c_div2 :: "int \<Rightarrow> int" where
  "c_div2 d = (if 0 \<le> d then d div 2 else - ((- d) div 2))"

definition inflate :: "rect \<Rightarrow> int \<Rightarrow> int \<Rightarrow> rect" where
  "inflate r dx dy = Rect (rleft r - c_div2 dx) (rtop r - c_div2 dy) (rwidth r + dx) (rheight r + dy)"

definition colliderect :: "rect \<Rightarrow> rect \<Rightarrow> bool" where
  "colliderect a b =
     (if rwidth a = 0 \<or> rheight a = 0 \<or> rwidth b = 0 \<or> rheight b = 0 then False
      else min (rleft a) (rright a) < max (rleft b) (rright b)
         \<and> min (rtop a) (rbottom a) < max (rtop b) (rbottom b)
         \<and> max (rleft a) (rright a) > min (rleft b) (rright b)
         \<and> max (rtop a) (rbottom a) > min (rtop b) (rbottom b))"

text \<open>The square of tile \<open>(tx, ty)\<close>: \<^verbatim>\<open>pygame.Rect(tx*TILE, ty*TILE, TILE, TILE)\<close>.\<close>

definition tile_rect :: "int \<Rightarrow> int \<Rightarrow> rect" where
  "tile_rect tx ty = Rect (tx * TILE) (ty * TILE) TILE TILE"

text \<open>
  The tile grid is a list of rows of one-character type codes. A yielded tile is the
  triple \<open>(tx, ty, ch)\<close>.
\<close>

type_synonym grid = "char list list"
type_synonym tile = "int \<times> int \<times> char"

text \<open>
  \<^verbatim>\<open>tiles_in_aabb(tilemap, rect)\<close>. The generator is modelled by the list of what it yields,
  in order. \<^verbatim>\<open>tilemap[0]\<close> raises on an empty grid; \<^verbatim>\<open>row[tx]\<close> raises when a scanned row is
  shorter than row 0 (the indices are never negative). The model raises for the whole
  call where the generator would raise in the middle of the iteration.
\<close>

definition scan_row :: "char list \<Rightarrow> int \<Rightarrow> int list \<Rightarrow> tile list option" where
  "scan_row row ty txs =
     map_option (filter (\<lambda>(tx, ty, ch). ch \<noteq> CHR '' ''))
       (those (map (\<lambda>tx. if nat tx < length row then Some (tx, ty, row ! nat tx) else None) txs))"

definition tiles_in_aabb :: "grid \<Rightarrow> rect \<Rightarrow> tile list option" where
  "tiles_in_aabb tilemap r =
     (case tilemap of
        [] \<Rightarrow> None
      | row0 # _ \<Rightarrow>
         (let min_tx = max 0 (rleft r div TILE);
              max_tx = min (int (length row0) - 1) (rright r div TILE);
              min_ty = max 0 (rtop r div TILE);
              max_ty = min (int (length tilemap) - 1) (rbottom r div TILE)
          in map_option concat
               (those (map (\<lambda>ty. scan_row (tilemap ! nat ty) ty [min_tx..max_tx])
                           [min_ty..max_ty]))))"

definition solid :: "char \<Rightarrow> bool" where
  "solid ch = (ch \<in> {CHR ''X'', CHR ''='', CHR ''B'', CHR ''S'', CHR ''Q''})"

text \<open>
  The invariant of the data model: the grid has at least one row and every row has the
  length of the first.
\<close>

definition rect_grid :: "grid \<Rightarrow> bool" where
  "rect_grid g = (g \<noteq> [] \<and> (\<forall>row \<in> set g. length row = length (hd g)))"

definition grid_width :: "grid \<Rightarrow> int" where
  "grid_width g = int (length (hd g))"

definition grid_height :: "grid \<Rightarrow> int" where
  "grid_height g = int (length g)"

definition cell :: "grid \<Rightarrow> int \<Rightarrow> int \<Rightarrow> char" where
  "cell g tx ty = g ! nat ty ! nat tx"

definition in_grid :: "grid \<Rightarrow> int \<Rightarrow> int \<Rightarrow> bool" where
  "in_grid g tx ty = (0 \<le> tx \<and> tx < grid_width g \<and> 0 \<le> ty \<and> ty < grid_height g)"


section \<open>Tuning constants\<close>

definition GRAVITY :: real where "GRAVITY = 2500"
definition MAX_FALL :: real where "MAX_FALL = 1600"
definition ACCEL :: real where "ACCEL = 4200"
definition AIR_ACCEL :: real where "AIR_ACCEL = 2600"
definition FRICTION :: real where "FRICTION = 2800"
definition MAX_SPEED :: real where "MAX_SPEED = 360"

definition JUMP_VEL :: real where "JUMP_VEL = - 900"
definition JUMP_CUT :: real where "JUMP_CUT = 42 / 100"
definition COYOTE_TIME :: real where "COYOTE_TIME = 12 / 100"
definition JUMP_BUFFER :: real where "JUMP_BUFFER = 12 / 100"

definition DASH_SPEED :: real where "DASH_SPEED = 1150"
definition DASH_TIME :: real where "DASH_TIME = 14 / 100"
definition DASH_COOLDOWN :: real where "DASH_COOLDOWN = 11 / 10"
definition INVINCIBLE_ON_DASH :: real where "INVINCIBLE_ON_DASH = 12 / 100"

definition SPRINT_SPEED_MULT :: real where "SPRINT_SPEED_MULT = 135 / 100"
definition SPRINT_ACCEL_MULT :: real where "SPRINT_ACCEL_MULT = 125 / 100"
definition SPRINT_JUMP_MULT :: real where "SPRINT_JUMP_MULT = 115 / 100"

definition SKID_TRIGGER_SPEED :: real where
  "SKID_TRIGGER_SPEED = MAX_SPEED * SPRINT_SPEED_MULT * (60 / 100)"
definition SKID_TIME :: real where "SKID_TIME = 18 / 100"
definition SKID_ACCEL_MULT :: real where "SKID_ACCEL_MULT = 25 / 100"
definition SKID_FRICTION_MULT :: real where "SKID_FRICTION_MULT = 110 / 100"
definition SKID_TILT_DEG :: real where "SKID_TILT_DEG = 12"

definition CROUCH_SPEED_MULT :: real where "CROUCH_SPEED_MULT = 55 / 100"
definition CROUCH_ACCEL_MULT :: real where "CROUCH_ACCEL_MULT = 60 / 100"
definition H_STAND :: int where "H_STAND = 52"
definition H_CROUCH :: int where "H_CROUCH = 34"
definition H_STAND_BIG :: int where "H_STAND_BIG = 70"
definition H_CROUCH_BIG :: int where "H_CROUCH_BIG = 46"

definition CROUCH_SLIDE_TRIGGER_SPEED :: real where
  "CROUCH_SLIDE_TRIGGER_SPEED = MAX_SPEED * SPRINT_SPEED_MULT * (65 / 100)"
definition CROUCH_SLIDE_TIME_BASE :: real where "CROUCH_SLIDE_TIME_BASE = 28 / 100"
definition CROUCH_SLIDE_DECEL_BASE :: real where "CROUCH_SLIDE_DECEL_BASE = 5200"
definition CROUCH_SLIDE_MIN_DIST :: real where "CROUCH_SLIDE_MIN_DIST = 90"

section \<open>The player\<close>

text \<open>
  The fields of \<^verbatim>\<open>class Player\<close>. The position \<^verbatim>\<open>x, y\<close> is the middle of the hitbox's
  bottom edge; \<^verbatim>\<open>w, h\<close> are its size. \<^verbatim>\<open>x\<close>, \<^verbatim>\<open>y\<close>, \<^verbatim>\<open>w\<close>, \<^verbatim>\<open>h\<close> and \<^verbatim>\<open>inv\<close> carry a
  prefix here. Particles are decoration drawn with random velocities; the simulation
  only appends them and never reads them, and they are left out, as is the unused
  field \<^verbatim>\<open>shift_held_prev\<close>.
\<close>

datatype form = Small | Big

record player =
  pos_x :: real
  pos_y :: real
  pw :: int
  h_stand :: int
  h_crouch :: int
  ph :: int
  form :: form
  vx :: real
  vy :: real
  on_ground :: bool
  since_ground :: real
  jump_buf :: real
  facing :: int
  trail :: "(real \<times> real \<times> real) list"
  dash_t :: real
  dash_cd :: real
  inv_t :: real
  dash_dir :: int
  sprint :: bool
  crouch :: bool
  dash_lock :: bool
  dash_unlocked :: bool
  skid_t :: real
  skid_dir :: int
  visual_tilt :: real
  crouch_slide_t :: real
  crouch_slide_decel :: real
  crouch_slide_dir :: int
  coins :: int
  power_flash :: real

text \<open>\<^verbatim>\<open>Player.__init__(x, y)\<close>.\<close>

definition Player :: "real \<Rightarrow> real \<Rightarrow> player" where
  "Player x0 y0 =
     \<lparr>pos_x = x0, pos_y = y0, pw = 36, h_stand = H_STAND, h_crouch = H_CROUCH, ph = H_STAND,
      form = Small, vx = 0, vy = 0, on_ground = False, since_ground = 0, jump_buf = 0,
      facing = 1, trail = [], dash_t = 0, dash_cd = 0, inv_t = 0, dash_dir = 0,
      sprint = False, crouch = False, dash_lock = False, dash_unlocked = False,
      skid_t = 0, skid_dir = 0, visual_tilt = 0, crouch_slide_t = 0,
      crouch_slide_decel = CROUCH_SLIDE_DECEL_BASE, crouch_slide_dir = 0, coins = 0,
      power_flash = 0\<rparr>"

text \<open>
  The hitbox of a given height standing on the player's position:
  \<^verbatim>\<open>pygame.Rect(int(self.x - self.w/2), int(self.y - height), self.w, height)\<close>.
  The property \<^verbatim>\<open>rect\<close> is the hitbox of the current height \<^verbatim>\<open>h\<close>.
\<close>

definition hitbox :: "player \<Rightarrow> int \<Rightarrow> rect" where
  "hitbox p hgt =
     Rect (py_int (pos_x p - real_of_int (pw p) / 2)) (py_int (pos_y p - real_of_int hgt))
          (pw p) hgt"

definition player_rect :: "player \<Rightarrow> rect" where
  "player_rect p = hitbox p (ph p)"

text \<open>
  The tiles a hitbox may not overlap: \<^verbatim>\<open>ch in ('|','^','F') or solid(ch)\<close>.
\<close>

definition blocks_stand :: "char \<Rightarrow> bool" where
  "blocks_stand ch = (ch \<in> {CHR ''|'', CHR ''^'', CHR ''F''} \<or> solid ch)"

text \<open>
  The common body of \<^verbatim>\<open>_can_stand\<close> and \<^verbatim>\<open>_rect_fits\<close>: query the tiles of the hitbox
  deflated by \<^verbatim>\<open>inflate(-8, -2)\<close>, and fail on the first blocking tile that collides
  with the hitbox itself.
\<close>

definition fits_at :: "grid \<Rightarrow> player \<Rightarrow> int \<Rightarrow> bool option" where
  "fits_at tilemap p hgt =
     map_option
       (\<lambda>ts. \<not> list_ex (\<lambda>(tx, ty, ch). blocks_stand ch
                           \<and> colliderect (hitbox p hgt) (tile_rect tx ty)) ts)
       (tiles_in_aabb tilemap (inflate (hitbox p hgt) (- 8) (- 2)))"

definition can_stand :: "grid \<Rightarrow> player \<Rightarrow> bool option" where
  "can_stand tilemap p = fits_at tilemap p (h_stand p)"

text \<open>\<^verbatim>\<open>_rect_fits(tilemap, height)\<close>; the tile map may be \<^verbatim>\<open>None\<close>, and then everything fits.\<close>

definition rect_fits :: "grid option \<Rightarrow> int \<Rightarrow> player \<Rightarrow> bool option" where
  "rect_fits tilemap hgt p =
     (case tilemap of None \<Rightarrow> Some True | Some tm \<Rightarrow> fits_at tm p hgt)"

text \<open>
  \<^verbatim>\<open>set_form(form, tilemap)\<close> returns its boolean and the player. Python's \<^verbatim>\<open>and\<close> calls
  \<^verbatim>\<open>_rect_fits\<close> only when its left operand is true, and the model does the same.
\<close>

definition set_form :: "form \<Rightarrow> grid option \<Rightarrow> player \<Rightarrow> (bool \<times> player) option" where
  "set_form f tilemap p =
     (if f = form p then Some (True, p)
      else if f = Big then
        do {
          stand_ok \<leftarrow> rect_fits tilemap H_STAND_BIG p;
          crouch_ok \<leftarrow> (if stand_ok then Some True else rect_fits tilemap H_CROUCH_BIG p);
          if \<not> stand_ok \<and> \<not> crouch_ok then Some (False, p)
          else
            let p1 = p\<lparr>form := Big, h_stand := H_STAND_BIG, h_crouch := H_CROUCH_BIG\<rparr>
            in if stand_ok \<and> \<not> crouch p1 then Some (True, p1\<lparr>ph := h_stand p1\<rparr>)
               else Some (True, p1\<lparr>crouch := True, ph := h_crouch p1\<rparr>)
        }
      else
        do {
          let p1 = p\<lparr>form := Small, h_stand := H_STAND, h_crouch := H_CROUCH\<rparr>;
          fits_c \<leftarrow> (if crouch p1 then rect_fits tilemap (h_crouch p1) p1 else Some True);
          let p2 = (if crouch p1 \<and> \<not> fits_c then p1\<lparr>crouch := False\<rparr> else p1);
          fits_s \<leftarrow> (if \<not> crouch p2 then rect_fits tilemap (h_stand p2) p2 else Some True);
          let p3 = (if \<not> crouch p2 \<and> \<not> fits_s then p2\<lparr>crouch := True\<rparr> else p2);
          Some (True, p3\<lparr>ph := (if crouch p3 then h_crouch p3 else h_stand p3)\<rparr>)
        })"

text \<open>\<^verbatim>\<open>collect_powerup(kind, tilemap, particles)\<close>.\<close>

definition collect_powerup :: "string \<Rightarrow> grid \<Rightarrow> player \<Rightarrow> (bool \<times> player) option" where
  "collect_powerup kind tilemap p =
     (if kind = ''mushroom'' then
        do {
          let already_big = (form p = Big);
          (grew, p1) \<leftarrow> set_form Big (Some tilemap) p;
          if grew then
            Some (True, p1\<lparr>power_flash := (if \<not> already_big then 6 / 10 else 3 / 10),
                            inv_t := max (inv_t p1) (4 / 10)\<rparr>)
          else Some (False, p1)
        }
      else Some (False, p))"

text \<open>\<^verbatim>\<open>take_damage(tilemap, particles)\<close>: true when the damage is lethal.\<close>

definition take_damage :: "grid \<Rightarrow> player \<Rightarrow> (bool \<times> player) option" where
  "take_damage tilemap p =
     (if inv_t p > 0 then Some (False, p)
      else if form p = Big then
        do {
          (_, p1) \<leftarrow> set_form Small (Some tilemap) p;
          Some (False, p1\<lparr>inv_t := max (inv_t p1) (12 / 10), power_flash := 0,
                           vy := min (vy p1) (- 260)\<rparr>)
        }
      else Some (True, p))"

text \<open>\<^verbatim>\<open>_set_crouch(want_crouch, tilemap)\<close>.\<close>

definition set_crouch :: "bool \<Rightarrow> grid \<Rightarrow> player \<Rightarrow> player option" where
  "set_crouch want_crouch tilemap p =
     (if want_crouch \<and> \<not> crouch p then Some (p\<lparr>ph := h_crouch p, crouch := True\<rparr>)
      else if \<not> want_crouch \<and> crouch p then
        do {
          ok \<leftarrow> can_stand tilemap p;
          if ok then Some (p\<lparr>ph := h_stand p, crouch := False\<rparr>)
          else Some (p\<lparr>crouch := True\<rparr>)
        }
      else Some p)"

text \<open>\<^verbatim>\<open>try_jump()\<close>.\<close>

definition try_jump :: "player \<Rightarrow> bool \<times> player" where
  "try_jump p =
     (if (on_ground p \<or> since_ground p \<le> COYOTE_TIME) \<and> jump_buf p > 0 then
        (True, p\<lparr>vy := JUMP_VEL * (if sprint p then SPRINT_JUMP_MULT else 1),
                  on_ground := False, since_ground := 999, jump_buf := 0\<rparr>)
      else (False, p))"

text \<open>\<^verbatim>\<open>start_dash()\<close>. The vertical axis points down: a positive \<^verbatim>\<open>vy\<close> is a fall.\<close>

definition start_dash :: "player \<Rightarrow> player" where
  "start_dash p =
     (let p1 = p\<lparr>dash_t := DASH_TIME, dash_cd := DASH_COOLDOWN, inv_t := INVINCIBLE_ON_DASH\<rparr>;
          p2 = p1\<lparr>dash_dir := (if facing p1 \<noteq> 0 then facing p1 else 1)\<rparr>;
          p3 = p2\<lparr>vx := real_of_int (dash_dir p2) * DASH_SPEED\<rparr>;
          p4 = (if vy p3 > 0 then p3\<lparr>vy := 0\<rparr> else p3)
      in p4\<lparr>sprint := False\<rparr>)"


section \<open>The session state and its grid callbacks\<close>

text \<open>
  \<^verbatim>\<open>class MushroomItem\<close> and the part of \<^verbatim>\<open>class Game\<close> that the player's update and the
  pickup code read or write: the tile map, the player, the items, the coin counter, the
  session state and the three key latches. Enemies, particles, toast, camera and clock
  are not modelled.
\<close>

datatype item_state = Emerging | Active

record mushroom =
  m_x :: real
  m_y :: real
  m_w :: int
  m_h :: int
  target_y :: real
  m_vx :: real
  m_vy :: real
  direction :: int
  m_state :: item_state
  remove :: bool

text \<open>\<^verbatim>\<open>MushroomItem.__init__(x, block_top, direction)\<close>.\<close>

definition MushroomItem :: "real \<Rightarrow> real \<Rightarrow> int \<Rightarrow> mushroom" where
  "MushroomItem x0 block_top dir =
     \<lparr>m_x = x0, m_y = block_top + 40, m_w = 40, m_h = 40, target_y = block_top,
      m_vx = 0, m_vy = 0, direction = (if dir \<ge> 0 then 1 else - 1),
      m_state = Emerging, remove = False\<rparr>"

definition item_rect :: "mushroom \<Rightarrow> rect" where
  "item_rect i =
     Rect (py_int (m_x i - real_of_int (m_w i) / 2)) (py_int (m_y i - real_of_int (m_h i)))
          (m_w i) (m_h i)"

datatype run_state = RUN | DEAD | WIN

record game =
  tilemap :: grid
  player :: player
  items :: "mushroom list"
  coins_got :: int
  state :: run_state
  jp_last :: bool
  sh_last :: bool
  cr_last :: bool

text \<open>
  Python list indexing: a negative index counts from the end, an index outside
  \<open>[-n, n)\<close> raises.
\<close>

definition py_index :: "'a list \<Rightarrow> int \<Rightarrow> nat option" where
  "py_index xs i =
     (let n = int (length xs); j = (if i < 0 then n + i else i)
      in if 0 \<le> j \<and> j < n then Some (nat j) else None)"

text \<open>\<^verbatim>\<open>tilemap[ty][tx]\<close> and \<^verbatim>\<open>tilemap[ty][tx] = c\<close>. Each row is a list of its own.\<close>

definition grid_get :: "grid \<Rightarrow> int \<Rightarrow> int \<Rightarrow> char option" where
  "grid_get tm tx ty =
     do { j \<leftarrow> py_index tm ty; i \<leftarrow> py_index (tm ! j) tx; Some (tm ! j ! i) }"

definition grid_set :: "grid \<Rightarrow> int \<Rightarrow> int \<Rightarrow> char \<Rightarrow> grid option" where
  "grid_set tm tx ty c =
     do { j \<leftarrow> py_index tm ty; i \<leftarrow> py_index (tm ! j) tx; Some (tm[j := (tm ! j)[i := c]]) }"

text \<open>\<^verbatim>\<open>Game.destroy_gate(tx, ty)\<close>.\<close>

definition destroy_gate :: "int \<Rightarrow> int \<Rightarrow> game \<Rightarrow> game option" where
  "destroy_gate tx ty g =
     do {
       c \<leftarrow> grid_get (tilemap g) tx ty;
       if c = CHR ''|'' then
         do { tm \<leftarrow> grid_set (tilemap g) tx ty CHR '' ''; Some (g\<lparr>tilemap := tm\<rparr>) }
       else Some g
     }"

text \<open>
  \<^verbatim>\<open>Game.hit_block(tx, ty, ch, player)\<close>; the player passed is the session's own. On an
  empty grid the first bounds check already returns, so \<^verbatim>\<open>self.tilemap[0]\<close> is only read
  on a grid with a row.
\<close>

definition hit_block :: "int \<Rightarrow> int \<Rightarrow> char \<Rightarrow> game \<Rightarrow> game option" where
  "hit_block tx ty ch g =
     (if ty < 0 \<or> ty \<ge> int (length (tilemap g)) then Some g
      else if tx < 0 \<or> tx \<ge> int (length (hd (tilemap g))) then Some g
      else
        do {
          current \<leftarrow> grid_get (tilemap g) tx ty;
          if current \<noteq> ch then Some g
          else
            let spawn_x = real_of_int (tx * TILE) + real_of_int TILE / 2;
                block_top = real_of_int (ty * TILE)
            in if ch = CHR ''B'' then
                 do {
                   tm \<leftarrow> grid_set (tilemap g) tx ty CHR ''X'';
                   let dir = (if pos_x (player g) \<ge> spawn_x then - 1 else 1);
                   Some (g\<lparr>tilemap := tm,
                            items := items g @ [MushroomItem spawn_x block_top dir]\<rparr>)
                 }
               else if ch = CHR ''Q'' then
                 do {
                   tm \<leftarrow> grid_set (tilemap g) tx ty CHR ''X'';
                   Some (g\<lparr>tilemap := tm, coins_got := coins_got g + 1,
                            player := (player g)\<lparr>coins := coins (player g) + 1\<rparr>\<rparr>)
                 }
               else if ch = CHR ''S'' then
                 (if form (player g) \<noteq> Big then Some g
                  else do { tm \<leftarrow> grid_set (tilemap g) tx ty CHR '' '';
                            Some (g\<lparr>tilemap := tm\<rparr>) })
               else Some g
        })"

section \<open>The player's frame: \<^verbatim>\<open>Player.update\<close>\<close>

text \<open>
  The key dictionary that \<^verbatim>\<open>Game.update\<close> builds for the player.
\<close>

record keys =
  key_a :: bool
  key_d :: bool
  key_left :: bool
  key_right :: bool
  shift_held :: bool
  dash_pressed :: bool
  jump_pressed :: bool
  jump_released :: bool
  crouch_held :: bool
  crouch_pressed :: bool

text \<open>
  \<^verbatim>\<open>Player.update\<close> is one long method; it is cut here into its commented sections, in
  order. First the timers and the decay of the dash trail.
\<close>

definition tick_timers :: "real \<Rightarrow> player \<Rightarrow> player" where
  "tick_timers dt p =
     p\<lparr>since_ground := (if since_ground p < 10 then since_ground p + dt else since_ground p),
       jump_buf := (if jump_buf p > 0 then jump_buf p - dt else jump_buf p),
       dash_t := (if dash_t p > 0 then dash_t p - dt else dash_t p),
       dash_cd := (if dash_cd p > 0 then dash_cd p - dt else dash_cd p),
       inv_t := (if inv_t p > 0 then inv_t p - dt else inv_t p),
       skid_t := (if skid_t p > 0 then skid_t p - dt else skid_t p),
       crouch_slide_t := (if crouch_slide_t p > 0 then crouch_slide_t p - dt
                          else crouch_slide_t p),
       power_flash := (if power_flash p > 0 then max 0 (power_flash p - dt)
                       else power_flash p),
       trail := filter (\<lambda>(tx, ty, alpha). alpha > 0)
                  (map (\<lambda>(tx, ty, alpha). (tx, ty, alpha - 35 / 10 * dt)) (trail p))\<rparr>"

text \<open>\<^verbatim>\<open>input_axis(keys)\<close> returns the axis and turns the player.\<close>

definition input_axis :: "keys \<Rightarrow> player \<Rightarrow> real \<times> player" where
  "input_axis k p =
     (let l = (key_a k \<or> key_left k); r = (key_d k \<or> key_right k);
          ax = (if l then - 1 else 0) + (if r then 1 else 0)
      in (ax, if ax \<noteq> 0 then p\<lparr>facing := (if ax > 0 then 1 else - 1)\<rparr> else p))"

text \<open>
  Crouch, with the forced crouch: \<^verbatim>\<open>want_crouch = (self.dash_t <= 0) and crouch_held\<close>,
  turned on if the player crouches and cannot stand, then \<^verbatim>\<open>_set_crouch\<close>.
\<close>

definition resolve_crouch :: "keys \<Rightarrow> grid \<Rightarrow> player \<Rightarrow> player option" where
  "resolve_crouch k tm p =
     do {
       let want = (dash_t p \<le> 0 \<and> crouch_held k);
       forced \<leftarrow> (if \<not> want \<and> crouch p then map_option Not (can_stand tm p)
                   else Some False);
       set_crouch (want \<or> forced) tm p
     }"

text \<open>
  The crouch-slide trigger and the forced crouch of a running slide. \<open>prev_crouch\<close> and
  \<open>prev_sprint\<close> are the flags saved before the crouch was resolved.
\<close>

definition crouch_slide_trigger :: "keys \<Rightarrow> bool \<Rightarrow> bool \<Rightarrow> player \<Rightarrow> player" where
  "crouch_slide_trigger k prev_crouch prev_sprint p =
     (let p1 =
        (if crouch_pressed k \<and> \<not> prev_crouch \<and> crouch p \<and> on_ground p \<and> prev_sprint
            \<and> dash_t p \<le> 0 \<and> \<bar>vx p\<bar> \<ge> CROUCH_SLIDE_TRIGGER_SPEED
         then
           let v0 = \<bar>vx p\<bar>;
               a_req = (v0 * v0) / (2 * max 1 CROUCH_SLIDE_MIN_DIST);
               decel = min CROUCH_SLIDE_DECEL_BASE a_req;
               t_stop = v0 / max 1 decel
           in p\<lparr>crouch_slide_decel := decel,
                 crouch_slide_t := max CROUCH_SLIDE_TIME_BASE t_stop,
                 crouch_slide_dir := (if vx p \<ge> 0 then 1 else - 1)\<rparr>
         else p)
      in if crouch_slide_t p1 > 0 then p1\<lparr>ph := h_crouch p1, crouch := True\<rparr> else p1)"

text \<open>
  The dash trigger. The conjunction is evaluated left to right, so \<^verbatim>\<open>_can_stand\<close> is
  called only when every other condition holds.
\<close>

definition dash_trigger :: "keys \<Rightarrow> grid \<Rightarrow> player \<Rightarrow> player option" where
  "dash_trigger k tm p =
     (if dash_unlocked p \<and> dash_pressed k \<and> dash_cd p \<le> 0 \<and> dash_t p \<le> 0
         \<and> \<not> dash_lock p \<and> \<not> crouch p
      then do {
             ok \<leftarrow> can_stand tm p;
             if ok then Some ((start_dash p)\<lparr>dash_lock := True\<rparr>) else Some p
           }
      else Some p)"

definition sprint_phase :: "keys \<Rightarrow> player \<Rightarrow> player" where
  "sprint_phase k p =
     (let p1 = (if dash_t p \<le> 0 \<and> shift_held k \<and> \<not> crouch p then p\<lparr>sprint := True\<rparr>
                else if \<not> shift_held k \<or> crouch p then p\<lparr>sprint := False\<rparr> else p)
      in if \<not> shift_held k then p1\<lparr>dash_lock := False\<rparr> else p1)"

text \<open>
  The skid trigger; \<open>input_dir\<close> and \<open>moving_dir\<close> are the locals computed at the top of
  the frame.
\<close>

definition skid_trigger :: "int \<Rightarrow> int \<Rightarrow> player \<Rightarrow> player" where
  "skid_trigger input_dir moving_dir p =
     (if on_ground p \<and> sprint p \<and> dash_t p \<le> 0 \<and> input_dir \<noteq> 0 \<and> moving_dir \<noteq> 0
         \<and> input_dir \<noteq> moving_dir \<and> \<bar>vx p\<bar> \<ge> SKID_TRIGGER_SPEED \<and> skid_t p \<le> 0
      then p\<lparr>skid_t := SKID_TIME, skid_dir := moving_dir, facing := input_dir\<rparr>
      else p)"

text \<open>
  \<^verbatim>\<open>math.copysign(a, v)\<close> for \<open>a \<ge> 0\<close>; the sign of a float zero is not modelled and
  counts as positive.
\<close>

definition copysign :: "real \<Rightarrow> real \<Rightarrow> real" where
  "copysign a v = (if v \<ge> 0 then \<bar>a\<bar> else - \<bar>a\<bar>)"

text \<open>\<^verbatim>\<open>add_trail\<close> on a \<^verbatim>\<open>deque(maxlen=12)\<close>: the oldest entry falls out.\<close>

definition add_trail :: "player \<Rightarrow> player" where
  "add_trail p =
     (let t = trail p @ [(pos_x p, pos_y p, 7 / 10)]
      in p\<lparr>trail := drop (length t - 12) t\<rparr>)"

text \<open>The horizontal velocity: dash, skid friction, slide deceleration or input.\<close>

definition horizontal_accel :: "real \<Rightarrow> real \<Rightarrow> player \<Rightarrow> player" where
  "horizontal_accel dt ax p =
     (if dash_t p > 0 then add_trail p
      else
        let accel_base = (if on_ground p then ACCEL else AIR_ACCEL);
            accel_mult = (if sprint p then SPRINT_ACCEL_MULT else 1)
                         * (if crouch p \<and> crouch_slide_t p \<le> 0 then CROUCH_ACCEL_MULT else 1);
            accel0 = accel_base * accel_mult;
            skid = (skid_t p > 0 \<and> on_ground p);
            accel = (if skid then accel0 * SKID_ACCEL_MULT else accel0);
            p1 = (if skid
                  then p\<lparr>vx := vx p - copysign (FRICTION * SKID_FRICTION_MULT * dt) (vx p)\<rparr>
                  else p)
        in if crouch_slide_t p1 > 0 \<and> on_ground p1 then
             (let dec = crouch_slide_decel p1 * dt
              in if \<bar>vx p1\<bar> \<le> dec then p1\<lparr>vx := 0\<rparr>
                 else p1\<lparr>vx := vx p1 - copysign dec (vx p1)\<rparr>)
           else
             (let p2 = p1\<lparr>vx := vx p1 + accel * ax * dt\<rparr>
              in if \<bar>ax\<bar> < 1 / 100 \<and> on_ground p2 then
                   (if \<bar>vx p2\<bar> \<le> FRICTION * dt then p2\<lparr>vx := 0\<rparr>
                    else p2\<lparr>vx := vx p2 - FRICTION * dt * (if vx p2 > 0 then 1 else - 1)\<rparr>)
                 else p2))"

text \<open>The speed clamp; a slide is not throttled by the crouch factor.\<close>

definition clamp_speed :: "player \<Rightarrow> player" where
  "clamp_speed p =
     (if dash_t p \<le> 0 then
        let max_speed = MAX_SPEED * (if sprint p then SPRINT_SPEED_MULT else 1)
                        * (if crouch p \<and> crouch_slide_t p \<le> 0 then CROUCH_SPEED_MULT else 1)
        in p\<lparr>vx := clamp (vx p) (- max_speed) max_speed\<rparr>
      else p)"

text \<open>Gravity, the jump buffer and the jump cut.\<close>

definition gravity_jump :: "real \<Rightarrow> keys \<Rightarrow> player \<Rightarrow> player" where
  "gravity_jump dt k p =
     (let p1 = p\<lparr>vy := clamp (vy p + GRAVITY * dt) (- 9999) MAX_FALL\<rparr>;
          p2 = (if jump_pressed k then p1\<lparr>jump_buf := JUMP_BUFFER\<rparr> else p1)
      in if jump_released k \<and> vy p2 < 0 then p2\<lparr>vy := vy p2 * JUMP_CUT\<rparr> else p2)"


text \<open>
  The horizontal move. Every tile of the query is visited with the rectangle \<open>r\<close> taken
  once after the move. A gate met during a dash is only remembered, and each one
  overwrites the one remembered before; a gate met without a dash, and a solid tile,
  push the player back to the tile's edge and stop him.
\<close>

definition block_x :: "rect \<Rightarrow> int \<Rightarrow> int \<Rightarrow> player \<Rightarrow> player" where
  "block_x r tx ty p =
     (let tile_r = tile_rect tx ty
      in if colliderect r tile_r then
           (let p1 = (if vx p > 0 then p\<lparr>pos_x := real_of_int (rleft tile_r) - real_of_int (pw p) / 2\<rparr>
                      else if vx p < 0 then p\<lparr>pos_x := real_of_int (rright tile_r) + real_of_int (pw p) / 2\<rparr>
                      else p)
            in p1\<lparr>vx := 0\<rparr>)
         else p)"

fun sweep_x :: "rect \<Rightarrow> tile list \<Rightarrow> player \<times> (int \<times> int) option \<Rightarrow> player \<times> (int \<times> int) option" where
  "sweep_x r [] s = s"
| "sweep_x r ((tx, ty, ch) # ts) (p, cg) =
     (let (p1, cg1) = (if ch = CHR ''|'' then
                         (if dash_t p > 0 then (p, Some (tx, ty)) else (block_x r tx ty p, cg))
                       else (p, cg));
          p2 = (if solid ch then block_x r tx ty p1 else p1)
      in sweep_x r ts (p2, cg1))"

definition move_horizontal :: "real \<Rightarrow> game \<Rightarrow> game option" where
  "move_horizontal dt g =
     do {
       let p1 = (player g)\<lparr>pos_x := pos_x (player g) + vx (player g) * dt\<rparr>;
       let r = player_rect p1;
       ts \<leftarrow> tiles_in_aabb (tilemap g) (inflate r 2 (- 2));
       let (p2, cg) = sweep_x r ts (p1, None);
       let g1 = g\<lparr>player := p2\<rparr>;
       case cg of None \<Rightarrow> Some g1 | Some (gx, gy) \<Rightarrow> destroy_gate gx gy g1
     }"

text \<open>
  The vertical move in sub-steps. Within a sub-step \<open>prev_rect\<close> is fixed and \<open>r\<close> is
  renewed after each snap. A ceiling hit on a block reports it to \<^verbatim>\<open>hit_block\<close>, which
  may rewrite the grid and the coin counters.
\<close>

definition collide_y :: "real \<Rightarrow> rect \<Rightarrow> tile \<Rightarrow> game \<times> rect \<Rightarrow> (game \<times> rect) option" where
  "collide_y step_dy prev_rect t s =
     (case (t, s) of ((tx, ty, ch), (g, r)) \<Rightarrow>
       let p = player g in
       if ch = CHR ''|'' \<and> dash_t p > 0 then Some (g, r)
       else if ch = CHR ''|'' \<or> solid ch then
         (let tile_r = tile_rect tx ty
          in if \<not> colliderect r tile_r then Some (g, r)
             else if step_dy > 0 then
               (if rbottom prev_rect \<le> rtop tile_r \<and> rbottom r \<ge> rtop tile_r then
                  (let p1 = p\<lparr>pos_y := real_of_int (rtop tile_r), vy := 0, on_ground := True,
                               since_ground := 0\<rparr>
                   in Some (g\<lparr>player := p1\<rparr>, player_rect p1))
                else Some (g, r))
             else if step_dy < 0 then
               (if rtop prev_rect \<ge> rbottom tile_r \<and> rtop r \<le> rbottom tile_r then
                  (let p1 = p\<lparr>pos_y := real_of_int (rbottom tile_r + ph p), vy := 0\<rparr>;
                       g1 = g\<lparr>player := p1\<rparr>
                   in do {
                        g2 \<leftarrow> (if ch \<in> {CHR ''B'', CHR ''S'', CHR ''Q''}
                               then hit_block tx ty ch g1 else Some g1);
                        Some (g2, player_rect p1)
                      })
                else Some (g, r))
             else Some (g, r))
       else Some (g, r))"

fun sweep_y :: "real \<Rightarrow> rect \<Rightarrow> tile list \<Rightarrow> game \<times> rect \<Rightarrow> (game \<times> rect) option" where
  "sweep_y step_dy prev_rect [] s = Some s"
| "sweep_y step_dy prev_rect (t # ts) s =
     do { s1 \<leftarrow> collide_y step_dy prev_rect t s; sweep_y step_dy prev_rect ts s1 }"

definition substep_y :: "real \<Rightarrow> game \<Rightarrow> game option" where
  "substep_y step_dy g =
     do {
       let p = player g;
       let prev_rect = player_rect p;
       let p1 = p\<lparr>pos_y := pos_y p + step_dy\<rparr>;
       let r = player_rect p1;
       ts \<leftarrow> tiles_in_aabb (tilemap g) (inflate r (- 8) 0);
       (g1, _) \<leftarrow> sweep_y step_dy prev_rect ts (g\<lparr>player := p1\<rparr>, r);
       Some g1
     }"

fun substeps :: "nat \<Rightarrow> real \<Rightarrow> game \<Rightarrow> game option" where
  "substeps 0 step_dy g = Some g"
| "substeps (Suc n) step_dy g = do { g1 \<leftarrow> substep_y step_dy g; substeps n step_dy g1 }"

text \<open>
  \<^verbatim>\<open>steps = max(1, int(abs(total_dy)//max(1, TILE//6)) + 1)\<close>: a floor division of a
  float by an int, then \<^verbatim>\<open>int\<close>.
\<close>

definition move_vertical :: "real \<Rightarrow> game \<Rightarrow> game option" where
  "move_vertical dt g =
     (let total_dy = vy (player g) * dt;
          steps = max 1 (\<lfloor>\<bar>total_dy\<bar> / real_of_int (max 1 (TILE div 6))\<rfloor> + 1);
          step_dy = total_dy / real_of_int steps
      in substeps (nat steps) step_dy g)"

definition tilt :: "real \<Rightarrow> player \<Rightarrow> player" where
  "tilt dt p =
     (let tilt_target = (if skid_t p > 0 then - SKID_TILT_DEG * real_of_int (skid_dir p) else 0)
      in p\<lparr>visual_tilt := visual_tilt p + (tilt_target - visual_tilt p) * min 1 (14 * dt)\<rparr>)"

text \<open>
  The controller: everything \<^verbatim>\<open>Player.update\<close> does before it moves the player, from the
  timers to \<^verbatim>\<open>self.on_ground = False\<close>. It reads the tile map only to test the standing
  room.
\<close>

definition control :: "real \<Rightarrow> keys \<Rightarrow> grid \<Rightarrow> player \<Rightarrow> player option" where
  "control dt k tm p =
     do {
       let p0 = tick_timers dt p;
       let (ax, p1) = input_axis k p0;
       let input_dir = (if ax > 0 then 1 else if ax < 0 then - 1 else (0::int));
       let moving_dir = (if vx p1 > 20 then 1 else if vx p1 < - 20 then - 1 else (0::int));
       let prev_crouch = crouch p1;
       let prev_sprint = sprint p1;
       p2 \<leftarrow> resolve_crouch k tm p1;
       let p3 = crouch_slide_trigger k prev_crouch prev_sprint p2;
       p4 \<leftarrow> dash_trigger k tm p3;
       let p5 = sprint_phase k p4;
       let p6 = skid_trigger input_dir moving_dir p5;
       let p7 = horizontal_accel dt ax p6;
       let p8 = clamp_speed p7;
       let p9 = gravity_jump dt k p8;
       Some (p9\<lparr>on_ground := False\<rparr>)
     }"

text \<open>
  \<^verbatim>\<open>Player.update(dt, keys, tilemap, particles, destroy_gate_cb, hit_block_cb)\<close> as
  \<^verbatim>\<open>Game.update\<close> calls it: on the session's own tile map, with the session's
  \<^verbatim>\<open>destroy_gate\<close> and \<^verbatim>\<open>hit_block\<close>; the controller, the horizontal move, the vertical
  move, the visual tilt.
\<close>

definition Player_update :: "real \<Rightarrow> keys \<Rightarrow> game \<Rightarrow> game option" where
  "Player_update dt k g =
     do {
       p \<leftarrow> control dt k (tilemap g) (player g);
       g1 \<leftarrow> move_horizontal dt (g\<lparr>player := p\<rparr>);
       g2 \<leftarrow> move_vertical dt g1;
       Some (g2\<lparr>player := tilt dt (player g2)\<rparr>)
     }"

section \<open>The session's frame: the modelled parts of \<^verbatim>\<open>Game.update\<close>\<close>

text \<open>The keys read from the keyboard at the top of \<^verbatim>\<open>Game.update\<close>.\<close>

record raw_keys =
  k_space :: bool
  k_lshift :: bool
  k_s :: bool
  k_down :: bool
  k_a :: bool
  k_d :: bool
  k_left :: bool
  k_right :: bool

text \<open>
  The first part of \<^verbatim>\<open>Game.update(dt)\<close>: the edge signals from the latches, the player's
  update, and the jump, tried only in a frame whose \<^verbatim>\<open>jump_pressed\<close> is set.
\<close>

definition make_keys :: "raw_keys \<Rightarrow> game \<Rightarrow> keys" where
  "make_keys raw g =
     (let jp = k_space raw; sh = k_lshift raw; cr = (k_s raw \<or> k_down raw)
      in \<lparr>key_a = k_a raw, key_d = k_d raw, key_left = k_left raw, key_right = k_right raw,
          shift_held = sh, dash_pressed = (sh \<and> \<not> sh_last g),
          jump_pressed = (jp \<and> \<not> jp_last g), jump_released = (\<not> jp \<and> jp_last g),
          crouch_held = cr, crouch_pressed = (cr \<and> \<not> cr_last g)\<rparr>)"

definition update_player_part :: "real \<Rightarrow> raw_keys \<Rightarrow> game \<Rightarrow> game option" where
  "update_player_part dt raw g =
     (if state g \<noteq> RUN then Some g
      else
        do {
          let k = make_keys raw g;
          let g1 = g\<lparr>jp_last := k_space raw, sh_last := k_lshift raw,
                      cr_last := (k_s raw \<or> k_down raw)\<rparr>;
          g2 \<leftarrow> Player_update dt k g1;
          Some (if jump_pressed k then g2\<lparr>player := snd (try_jump (player g2))\<rparr> else g2)
        })"

text \<open>
  The item pickup: every active item whose rectangle collides with the player's
  rectangle (taken once, before the loop) is offered as a power-up and marked for
  removal in both branches; the marked items are then dropped from the list.
\<close>

fun pickup_loop :: "rect \<Rightarrow> grid \<Rightarrow> mushroom list \<Rightarrow> player \<Rightarrow> (mushroom list \<times> player) option" where
  "pickup_loop pr tm [] p = Some ([], p)"
| "pickup_loop pr tm (i # is) p =
     (if remove i \<or> m_state i \<noteq> Active then
        do { (is1, p1) \<leftarrow> pickup_loop pr tm is p; Some (i # is1, p1) }
      else if colliderect pr (item_rect i) then
        do {
          (_, p1) \<leftarrow> collect_powerup ''mushroom'' tm p;
          (is1, p2) \<leftarrow> pickup_loop pr tm is p1;
          Some (i\<lparr>remove := True\<rparr> # is1, p2)
        }
      else do { (is1, p1) \<leftarrow> pickup_loop pr tm is p; Some (i # is1, p1) })"

definition pickup_items :: "game \<Rightarrow> game option" where
  "pickup_items g =
     do {
       (is1, p1) \<leftarrow> pickup_loop (player_rect (player g)) (tilemap g) (items g) (player g);
       Some (g\<lparr>player := p1, items := filter (\<lambda>i. \<not> remove i) is1\<rparr>)
     }"

text \<open>
  The scan of the tiles around the player, over \<^verbatim>\<open>r.inflate(8,8)\<close> with \<open>r\<close> taken once:
  coins, the dash core and mushroom tiles are consumed without an overlap test, spikes
  and the goal act only on a collision, and the goal ends the loop.
\<close>

fun scan_loop :: "rect \<Rightarrow> tile list \<Rightarrow> game \<Rightarrow> game option" where
  "scan_loop r [] g = Some g"
| "scan_loop r ((tx, ty, ch) # ts) g =
     (if ch = CHR ''C'' then
        do {
          tm \<leftarrow> grid_set (tilemap g) tx ty CHR '' '';
          scan_loop r ts (g\<lparr>tilemap := tm, coins_got := coins_got g + 1,
                            player := (player g)\<lparr>coins := coins (player g) + 1\<rparr>\<rparr>)
        }
      else if ch = CHR ''D'' then
        do {
          tm \<leftarrow> grid_set (tilemap g) tx ty CHR '' '';
          scan_loop r ts (g\<lparr>tilemap := tm, player := (player g)\<lparr>dash_unlocked := True\<rparr>\<rparr>)
        }
      else if ch = CHR ''M'' then
        do {
          (_, p1) \<leftarrow> collect_powerup ''mushroom'' (tilemap g) (player g);
          tm \<leftarrow> grid_set (tilemap g) tx ty CHR '' '';
          scan_loop r ts (g\<lparr>player := p1, tilemap := tm\<rparr>)
        }
      else if ch = CHR ''^'' then
        (if colliderect r (tile_rect tx ty) then
           do {
             (lethal, p1) \<leftarrow> take_damage (tilemap g) (player g);
             scan_loop r ts (g\<lparr>player := p1, state := (if lethal then DEAD else state g)\<rparr>)
           }
         else scan_loop r ts g)
      else if ch = CHR ''F'' then
        (if colliderect r (tile_rect tx ty) then Some (g\<lparr>state := WIN\<rparr>)
         else scan_loop r ts g)
      else scan_loop r ts g)"

definition scan_tiles :: "game \<Rightarrow> game option" where
  "scan_tiles g =
     do {
       let r = player_rect (player g);
       ts \<leftarrow> tiles_in_aabb (tilemap g) (inflate r 8 8);
       scan_loop r ts g
     }"


section \<open>Level files: \<^verbatim>\<open>level_io.py\<close>\<close>

text \<open>
  A value of Python's \<^verbatim>\<open>json\<close> module. Numbers are integers here. Characters are the
  code points below 256.
\<close>

datatype json = JNull | JBool bool | JNum int | JStr string | JList "json list"
  | JDict "(string \<times> json) list"

text \<open>
  The text that \<^verbatim>\<open>json.dump(data, f, ensure_ascii=False, indent=2)\<close> writes: items on
  lines of their own, indented by two spaces per level, \<^verbatim>\<open>", "\<close> replaced by a comma and
  a line break, \<^verbatim>\<open>": "\<close> after a key; in a string the quote, the backslash and the
  control characters are escaped.
\<close>

definition hex_digit :: "nat \<Rightarrow> char" where
  "hex_digit n = ''0123456789abcdef'' ! (n mod 16)"

definition json_escape_char :: "char \<Rightarrow> string" where
  "json_escape_char c =
     (if c = CHR 0x22 then [CHR 0x5C, CHR 0x22]
      else if c = CHR 0x5C then [CHR 0x5C, CHR 0x5C]
      else if c = CHR 0x0A then [CHR 0x5C, CHR ''n'']
      else if c = CHR 0x0D then [CHR 0x5C, CHR ''r'']
      else if c = CHR 0x09 then [CHR 0x5C, CHR ''t'']
      else if c = CHR 0x08 then [CHR 0x5C, CHR ''b'']
      else if c = CHR 0x0C then [CHR 0x5C, CHR ''f'']
      else if (of_char c :: nat) < 32
        then [CHR 0x5C, CHR ''u'', CHR ''0'', CHR ''0'',
              hex_digit (of_char c div 16), hex_digit (of_char c)]
      else [c])"

definition json_string :: "string \<Rightarrow> string" where
  "json_string s = [CHR 0x22] @ concat (map json_escape_char s) @ [CHR 0x22]"

fun dec_nat :: "nat \<Rightarrow> string" where
  "dec_nat n = (if n < 10 then [hex_digit n] else dec_nat (n div 10) @ [hex_digit (n mod 10)])"

definition dec_int :: "int \<Rightarrow> string" where
  "dec_int i = (if i < 0 then CHR ''-'' # dec_nat (nat (- i)) else dec_nat (nat i))"

definition newline_indent :: "nat \<Rightarrow> string" where
  "newline_indent n = CHR 0x0A # replicate (2 * n) CHR '' ''"

fun join :: "string \<Rightarrow> string list \<Rightarrow> string" where
  "join sep [] = []"
| "join sep [x] = x"
| "join sep (x # y # ys) = x @ sep @ join sep (y # ys)"

fun json_text :: "nat \<Rightarrow> json \<Rightarrow> string" where
  "json_text n JNull = ''null''"
| "json_text n (JBool b) = (if b then ''true'' else ''false'')"
| "json_text n (JNum i) = dec_int i"
| "json_text n (JStr s) = json_string s"
| "json_text n (JList xs) =
     (if xs = [] then ''[]''
      else ''['' @ newline_indent (Suc n)
           @ join ('','' @ newline_indent (Suc n)) (map (json_text (Suc n)) xs)
           @ newline_indent n @ '']'')"
| "json_text n (JDict kvs) =
     (if kvs = [] then ''{}''
      else ''{'' @ newline_indent (Suc n)
           @ join ('','' @ newline_indent (Suc n))
               (map (\<lambda>kv. json_string (fst kv) @ '': '' @ json_text (Suc n) (snd kv)) kvs)
           @ newline_indent n @ ''}'')"

text \<open>
  A file is its text together with what \<^verbatim>\<open>json.load\<close> returns for that text: a value,
  or nothing when the text is no JSON document and \<^verbatim>\<open>json.load\<close> raises
  \<^verbatim>\<open>JSONDecodeError\<close>. That \<^verbatim>\<open>json.load\<close> gives back the value \<^verbatim>\<open>json.dump\<close> wrote is the
  library's contract and is built into \<open>write_json\<close>. The file system maps paths to
  files; opening a missing path raises \<^verbatim>\<open>OSError\<close>, and every path can be written.
\<close>

record level_file =
  f_text :: string
  f_json :: "json option"

type_synonym filesystem = "string \<rightharpoonup> level_file"

definition write_json :: "json \<Rightarrow> level_file" where
  "write_json d = \<lparr>f_text = json_text 0 d, f_json = Some d\<rparr>"

text \<open>\<^verbatim>\<open>str.lower\<close> on the ASCII letters, and \<^verbatim>\<open>str.endswith\<close>.\<close>

definition lower_char :: "char \<Rightarrow> char" where
  "lower_char c =
     (if (65::nat) \<le> of_char c \<and> (of_char c :: nat) \<le> 90 then char_of (of_char c + (32::nat)) else c)"

definition lower :: "string \<Rightarrow> string" where
  "lower s = map lower_char s"

definition endswith :: "string \<Rightarrow> string \<Rightarrow> bool" where
  "endswith s suf = (length suf \<le> length s \<and> drop (length s - length suf) s = suf)"

text \<open>
  \<^verbatim>\<open>str.splitlines()\<close>: the line boundaries among the code points below 256 are
  \<^verbatim>\<open>\n\<close>, \<^verbatim>\<open>\r\<close>, \<^verbatim>\<open>\r\n\<close>, \<^verbatim>\<open>\v\<close>, \<^verbatim>\<open>\f\<close>, \<^verbatim>\<open>\x1c\<close>, \<^verbatim>\<open>\x1d\<close>, \<^verbatim>\<open>\x1e\<close> and \<^verbatim>\<open>\x85\<close>; the
  boundaries are dropped and a final boundary opens no further line. \<open>cur\<close> is the
  current line, reversed.
\<close>

definition is_linebreak :: "char \<Rightarrow> bool" where
  "is_linebreak c =
     (c \<in> {CHR 0x0A, CHR 0x0D, CHR 0x0B, CHR 0x0C, CHR 0x1C, CHR 0x1D, CHR 0x1E, CHR 0x85})"

fun splitlines_from :: "string \<Rightarrow> string \<Rightarrow> string list" where
  "splitlines_from cur [] = (if cur = [] then [] else [rev cur])"
| "splitlines_from cur [c] =
     (if is_linebreak c then [rev cur] else [rev (c # cur)])"
| "splitlines_from cur (c # d # cs) =
     (if c = CHR 0x0D \<and> d = CHR 0x0A then rev cur # splitlines_from [] cs
      else if is_linebreak c then rev cur # splitlines_from [] (d # cs)
      else splitlines_from (c # cur) (d # cs))"

definition splitlines :: "string \<Rightarrow> string list" where
  "splitlines s = splitlines_from [] s"

text \<open>\<^verbatim>\<open>row.ljust(width)\<close> pads with spaces on the right.\<close>

definition ljust :: "string \<Rightarrow> nat \<Rightarrow> string" where
  "ljust row n = row @ replicate (n - length row) CHR '' ''"

text \<open>
  \<^verbatim>\<open>_normalise_rows(rows)\<close> on rows that are strings already, for which \<^verbatim>\<open>str(r)\<close> is
  \<open>r\<close>; \<open>None\<close> is Python's \<^verbatim>\<open>None\<close>.
\<close>

definition normalise_rows :: "string list \<Rightarrow> string list option" where
  "normalise_rows rows =
     (if rows = [] then None
      else let width = Max (set (map length rows))
           in if width = 0 then None else Some (map (\<lambda>row. ljust row width) rows))"

text \<open>
  \<^verbatim>\<open>make_default_level()\<close>, with \<^verbatim>\<open>FIRST_PLATFORM_IS_LOW = True\<close>. \<open>put\<close> is
  \<^verbatim>\<open>grid[y][x] = ch\<close> and \<open>put_row\<close> the loop \<^verbatim>\<open>for x in range(a, b): grid[y][x] = ch\<close>.
\<close>

definition put :: "nat \<Rightarrow> nat \<Rightarrow> char \<Rightarrow> grid \<Rightarrow> grid" where
  "put y x ch g = g[y := (g ! y)[x := ch]]"

definition put_row :: "nat \<Rightarrow> nat \<Rightarrow> nat \<Rightarrow> char \<Rightarrow> grid \<Rightarrow> grid" where
  "put_row y a b ch g = fold (\<lambda>x. put y x ch) [a..<b] g"

definition put_col :: "nat \<Rightarrow> nat \<Rightarrow> nat \<Rightarrow> char \<Rightarrow> grid \<Rightarrow> grid" where
  "put_col x a b ch g = fold (\<lambda>y. put y x ch) [a..<b] g"

definition make_default_level :: "string list" where
  "make_default_level =
     (let width = 180; height = 14; ground_y = height - 1;
          y1 = ground_y - 2; y2 = ground_y - 4; gx = 128
      in (put_col 172 (ground_y - 3) (ground_y + 1) CHR ''X''
          \<circ> put (ground_y - 4) 172 CHR ''F''
          \<circ> put_row (ground_y - 5) 165 169 CHR ''C''
          \<circ> put_row (ground_y - 4) 164 169 CHR ''=''
          \<circ> put (ground_y - 1) 161 CHR ''^''
          \<circ> put (ground_y - 1) 160 CHR ''^''
          \<circ> put_row (ground_y - 3) 154 157 CHR ''C''
          \<circ> put_row (ground_y - 1) 152 158 CHR ''=''
          \<circ> put_row (ground_y - 1) 138 142 CHR ''=''
          \<circ> put_row ground_y 144 152 CHR '' ''
          \<circ> put (ground_y - 3) 124 CHR ''M''
          \<circ> put_row (ground_y - 3) 130 136 CHR ''C''
          \<circ> put_row (ground_y - 2) 130 136 CHR ''=''
          \<circ> put (ground_y - 2) gx CHR ''|''
          \<circ> put (ground_y - 1) gx CHR ''|''
          \<circ> put_row (ground_y - 1) 118 122 CHR ''=''
          \<circ> put_row (ground_y - 3) 122 132 CHR ''=''
          \<circ> put (ground_y - 3) 98 CHR ''D''
          \<circ> put_row (ground_y - 2) 94 102 CHR ''=''
          \<circ> put (ground_y - 1) 78 CHR ''G''
          \<circ> put_row (ground_y - 3) 76 80 CHR ''=''
          \<circ> put_row (ground_y - 2) 68 72 CHR ''=''
          \<circ> put_row (ground_y - 6) 58 62 CHR ''C''
          \<circ> put_row (ground_y - 5) 58 62 CHR ''=''
          \<circ> put_row (ground_y - 3) 52 56 CHR ''=''
          \<circ> put_row (ground_y - 5) 44 50 CHR ''C''
          \<circ> put_row (ground_y - 4) 44 50 CHR ''=''
          \<circ> put (ground_y - 1) 42 CHR ''^''
          \<circ> put_row ground_y 34 37 CHR '' ''
          \<circ> put (y2 - 2) 24 CHR ''M''
          \<circ> put (y2 - 1) 22 CHR ''G''
          \<circ> put_row y2 18 28 CHR ''=''
          \<circ> put (y1 - 1) 7 CHR ''M''
          \<circ> put (y1 - 1) 10 CHR ''G''
          \<circ> put_row y1 6 14 CHR ''=''
          \<circ> put_row ground_y 0 width CHR ''X'')
         (replicate height (replicate width CHR '' '')))"

text \<open>
  \<^verbatim>\<open>save_level(level, path)\<close>: the rows, joined already, are normalised (the default level
  stands in when that gives \<^verbatim>\<open>None\<close>) and written as \<^verbatim>\<open>{"tiles": rows}\<close>.
\<close>

definition save_level :: "string list \<Rightarrow> string \<Rightarrow> filesystem \<Rightarrow> filesystem" where
  "save_level level path fs =
     (let rows = (case normalise_rows level of Some rs \<Rightarrow> rs | None \<Rightarrow> make_default_level);
          data = JDict [(''tiles'', JList (map JStr rows))]
      in fs(path \<mapsto> write_json data))"

text \<open>
  Python's truth value of a JSON value, \<^verbatim>\<open>dict.get\<close> (a missing key gives \<^verbatim>\<open>None\<close>), and
  the \<^verbatim>\<open>or\<close> chain of \<^verbatim>\<open>_load_level_file\<close>.
\<close>

fun truthy :: "json \<Rightarrow> bool" where
  "truthy JNull = False"
| "truthy (JBool b) = b"
| "truthy (JNum i) = (i \<noteq> 0)"
| "truthy (JStr s) = (s \<noteq> [])"
| "truthy (JList xs) = (xs \<noteq> [])"
| "truthy (JDict kvs) = (kvs \<noteq> [])"

definition dict_get :: "(string \<times> json) list \<Rightarrow> string \<Rightarrow> json" where
  "dict_get kvs k = (case map_of kvs k of Some v \<Rightarrow> v | None \<Rightarrow> JNull)"

definition py_or :: "json \<Rightarrow> json \<Rightarrow> json" where
  "py_or a b = (if truthy a then a else b)"

text \<open>
  What iterating over \<open>rows\<close> and applying \<^verbatim>\<open>str\<close> gives: a list yields its elements, a
  dictionary its keys, a string its characters; a number or a boolean is not iterable
  and \<^verbatim>\<open>_normalise_rows\<close> raises \<^verbatim>\<open>TypeError\<close>. \<^verbatim>\<open>str\<close> of an element that is no string is
  Python's rendering of it, the parameter \<open>py_str\<close>.
\<close>

datatype exn = TypeError

definition str_of :: "(json \<Rightarrow> string) \<Rightarrow> json \<Rightarrow> string" where
  "str_of py_str j = (case j of JStr s \<Rightarrow> s | _ \<Rightarrow> py_str j)"

fun row_strings :: "(json \<Rightarrow> string) \<Rightarrow> json \<Rightarrow> exn + string list" where
  "row_strings py_str (JList xs) = Inr (map (str_of py_str) xs)"
| "row_strings py_str (JDict kvs) = Inr (map fst kvs)"
| "row_strings py_str (JStr s) = Inr (map (\<lambda>c. [c]) s)"
| "row_strings py_str j = Inl TypeError"

text \<open>
  \<^verbatim>\<open>_load_level_file(path)\<close>. A path ending in \<^verbatim>\<open>.json\<close>, in any letter case, is parsed as
  JSON; any other file is read as text and split into lines. \<open>Inr None\<close> is the
  returned \<^verbatim>\<open>None\<close>.
\<close>

definition load_level_file :: "(json \<Rightarrow> string) \<Rightarrow> string \<Rightarrow> filesystem \<Rightarrow> exn + string list option" where
  "load_level_file py_str path fs =
     (case fs path of
        None \<Rightarrow> Inr None
      | Some f \<Rightarrow>
          if endswith (lower path) ''.json'' then
            (case f_json f of
               None \<Rightarrow> Inr None
             | Some data \<Rightarrow>
                 (let rows = (case data of
                                JDict kvs \<Rightarrow> py_or (dict_get kvs ''tiles'')
                                               (py_or (dict_get kvs ''level'') (dict_get kvs ''rows''))
                              | JList xs \<Rightarrow> JList xs
                              | JStr s \<Rightarrow> JList (map JStr (splitlines s))
                              | _ \<Rightarrow> JNull)
                  in if rows = JNull then Inr None
                     else (case row_strings py_str rows of
                             Inl e \<Rightarrow> Inl e
                           | Inr rs \<Rightarrow> Inr (normalise_rows rs))))
          else Inr (normalise_rows (splitlines (f_text f))))"


section \<open>Notions used to state the properties\<close>

text \<open>
  The list \<^verbatim>\<open>tiles_in_aabb\<close> yields on a rectangular grid, written without the bounds
  checks.
\<close>

definition nonblank :: "tile \<Rightarrow> bool" where
  "nonblank t = (case t of (tx, ty, ch) \<Rightarrow> ch \<noteq> CHR '' '')"

definition tiles_list :: "grid \<Rightarrow> rect \<Rightarrow> tile list" where
  "tiles_list g r =
     concat (map (\<lambda>ty. filter nonblank (map (\<lambda>tx. (tx, ty, cell g tx ty))
                          [max 0 (rleft r div TILE)..min (grid_width g - 1) (rright r div TILE)]))
                 [max 0 (rtop r div TILE)..min (grid_height g - 1) (rbottom r div TILE)])"

text \<open>
  A tile square meets a rectangle whose right and bottom edge lines are counted in:
  the square's pixel columns \<open>tx*TILE .. tx*TILE + TILE - 1\<close> reach \<open>[left, right]\<close>, and
  likewise for the rows.
\<close>

definition touches :: "rect \<Rightarrow> int \<Rightarrow> int \<Rightarrow> bool" where
  "touches r tx ty =
     (rleft r < (tx + 1) * TILE \<and> tx * TILE \<le> rright r
      \<and> rtop r < (ty + 1) * TILE \<and> ty * TILE \<le> rbottom r)"

text \<open>Row-major order of yielded tiles: by row, then by column.\<close>

definition row_major :: "tile \<Rightarrow> tile \<Rightarrow> bool" where
  "row_major a b =
     (case (a, b) of ((tx, ty, _), (tx', ty', _)) \<Rightarrow> ty < ty' \<or> (ty = ty' \<and> tx < tx'))"


text \<open>
  A hitbox of the given height fits when the check of \<^verbatim>\<open>_rect_fits\<close> and \<^verbatim>\<open>_can_stand\<close>
  returns true.
\<close>

definition fits :: "grid \<Rightarrow> player \<Rightarrow> int \<Rightarrow> bool" where
  "fits g p hgt = (fits_at g p hgt = Some True)"

text \<open>
  Some cell of the grid holds a tile that blocks standing and overlaps the rectangle.
\<close>

definition hits_blocking :: "grid \<Rightarrow> rect \<Rightarrow> bool" where
  "hits_blocking g r =
     (\<exists>tx ty. in_grid g tx ty \<and> blocks_stand (cell g tx ty) \<and> colliderect r (tile_rect tx ty))"

text \<open>
  The part of a hitbox that the standing check looks at: four pixels in from the left,
  three from the right, one from the top.
\<close>

definition core :: "rect \<Rightarrow> rect" where
  "core r = Rect (rleft r + 4) (rtop r + 1) (rwidth r - 7) (rheight r - 1)"

text \<open>The grid with one cell rewritten.\<close>

definition with_cell :: "grid \<Rightarrow> int \<Rightarrow> int \<Rightarrow> char \<Rightarrow> grid" where
  "with_cell g tx ty c = g[nat ty := (g ! nat ty)[nat tx := c]]"

text \<open>
  What the movement code never changes: the crouch flag, the heights, the width and the
  form.
\<close>

definition posture :: "player \<Rightarrow> bool \<times> int \<times> int \<times> int \<times> int \<times> form" where
  "posture p = (crouch p, ph p, h_stand p, h_crouch p, pw p, form p)"

text \<open>
  The three reasons for which a frame keeps a crouching player crouched: the crouch is
  requested (the key is held and no dash runs, after the frame's timer tick), a
  blocking tile overlaps the core of the standing hitbox, or a crouch-slide still runs.
\<close>

definition crouch_requested :: "real \<Rightarrow> keys \<Rightarrow> player \<Rightarrow> bool" where
  "crouch_requested dt k p = (dash_t (tick_timers dt p) \<le> 0 \<and> crouch_held k)"

definition stand_blocked :: "grid \<Rightarrow> player \<Rightarrow> bool" where
  "stand_blocked g p = hits_blocking g (core (hitbox p (h_stand p)))"

definition slide_running :: "real \<Rightarrow> player \<Rightarrow> bool" where
  "slide_running dt p = (crouch_slide_t (tick_timers dt p) > 0)"

text \<open>
  For the horizontal move: the rectangle whose tiles the sweep visits, the gate the
  sweep remembers last, and the grid with every gate replaced by another code.
\<close>

definition sweep_query :: "real \<Rightarrow> player \<Rightarrow> rect" where
  "sweep_query dt p = inflate (player_rect (p\<lparr>pos_x := pos_x p + vx p * dt\<rparr>)) 2 (- 2)"

definition is_gate :: "tile \<Rightarrow> bool" where
  "is_gate t = (case t of (tx, ty, ch) \<Rightarrow> ch = CHR ''|'')"

definition last_gate :: "tile list \<Rightarrow> (int \<times> int) option" where
  "last_gate ts =
     (case rev (filter is_gate ts) of [] \<Rightarrow> None | (tx, ty, ch) # _ \<Rightarrow> Some (tx, ty))"

definition replace_gates :: "char \<Rightarrow> grid \<Rightarrow> grid" where
  "replace_gates c g = map (map (\<lambda>ch. if ch = CHR ''|'' then c else ch)) g"

definition gate_as :: "char \<Rightarrow> tile \<Rightarrow> tile" where
  "gate_as c t = (case t of (tx, ty, ch) \<Rightarrow> (tx, ty, if ch = CHR ''|'' then c else ch))"

text \<open>
  The player with the fields the vertical move may write blanked out, and likewise for
  the horizontal move: two players agree on all other fields when these agree.
\<close>

definition vertical_rest :: "player \<Rightarrow> player" where
  "vertical_rest p = p\<lparr>pos_y := 0, vy := 0, on_ground := False, since_ground := 0, coins := 0\<rparr>"

definition horizontal_rest :: "player \<Rightarrow> player" where
  "horizontal_rest p = p\<lparr>pos_x := 0, vx := 0\<rparr>"


text \<open>
  For the pickups: the tiles the scan around the player visits, the contact with a
  goal tile that ends the scan, the tiles the scan reaches before that, and the state
  in which a small player cannot grow.
\<close>

definition scan_list :: "game \<Rightarrow> tile list" where
  "scan_list g = tiles_list (tilemap g) (inflate (player_rect (player g)) 8 8)"

definition goal_contact :: "rect \<Rightarrow> tile \<Rightarrow> bool" where
  "goal_contact r t = (case t of (tx, ty, ch) \<Rightarrow> ch = CHR ''F'' \<and> colliderect r (tile_rect tx ty))"

definition reached :: "rect \<Rightarrow> tile list \<Rightarrow> tile list" where
  "reached r ts = takeWhile (\<lambda>t. \<not> goal_contact r t) ts"

definition cannot_grow :: "grid \<Rightarrow> player \<Rightarrow> bool" where
  "cannot_grow tm p = (form p = Small \<and> \<not> fits tm p H_STAND_BIG \<and> \<not> fits tm p H_CROUCH_BIG)"

definition touched :: "rect \<Rightarrow> mushroom \<Rightarrow> bool" where
  "touched pr i = (\<not> remove i \<and> m_state i = Active \<and> colliderect pr (item_rect i))"

text \<open>
  The loop of \<^verbatim>\<open>Game.run\<close> for a number of frames with the same keys held and the same
  frame time, on a level without enemies, items and pickups, where the rest of
  \<^verbatim>\<open>Game.update\<close> finds nothing to do.
\<close>

fun run_frames :: "nat \<Rightarrow> real \<Rightarrow> raw_keys \<Rightarrow> game \<Rightarrow> game option" where
  "run_frames 0 dt raw g = Some g"
| "run_frames (Suc n) dt raw g = update_player_part dt raw g \<bind> run_frames n dt raw"

text \<open>
  Two runs on a flat floor under two rows of air. In the first a sprinting player,
  at the sprint's top speed, presses crouch and keeps it pressed with the shift key
  still held and no direction key. In the second a player coming down from a jump, past the
  coyote time, presses jump just above the floor and keeps it pressed.
\<close>

definition sprint_start :: game where
  "sprint_start =
     \<lparr>tilemap = [''        '', ''        '', ''XXXXXXXX''],
      player = (Player 100 96)\<lparr>vx := 486, sprint := True, on_ground := True\<rparr>,
      items = [], coins_got = 0, state = RUN,
      jp_last = False, sh_last = True, cr_last = False\<rparr>"

definition crouch_keys :: raw_keys where
  "crouch_keys =
     \<lparr>k_space = False, k_lshift = True, k_s = True, k_down = False,
      k_a = False, k_d = False, k_left = False, k_right = False\<rparr>"

definition fall_start :: game where
  "fall_start =
     \<lparr>tilemap = [''        '', ''        '', ''XXXXXXXX''],
      player = (Player 100 92)\<lparr>vy := 100, since_ground := 999\<rparr>,
      items = [], coins_got = 0, state = RUN,
      jp_last = False, sh_last = False, cr_last = False\<rparr>"

definition jump_keys :: raw_keys where
  "jump_keys =
     \<lparr>k_space = True, k_lshift = False, k_s = False, k_down = False,
      k_a = False, k_d = False, k_left = False, k_right = False\<rparr>"

section \<open>Facts about the tile query\<close>

lemmas consts_defs =
  TILE_def GRAVITY_def MAX_FALL_def ACCEL_def AIR_ACCEL_def FRICTION_def MAX_SPEED_def
  JUMP_VEL_def JUMP_CUT_def COYOTE_TIME_def JUMP_BUFFER_def DASH_SPEED_def DASH_TIME_def
  DASH_COOLDOWN_def INVINCIBLE_ON_DASH_def SPRINT_SPEED_MULT_def SPRINT_ACCEL_MULT_def
  SPRINT_JUMP_MULT_def SKID_TRIGGER_SPEED_def SKID_TIME_def SKID_ACCEL_MULT_def
  SKID_FRICTION_MULT_def SKID_TILT_DEG_def CROUCH_SPEED_MULT_def CROUCH_ACCEL_MULT_def
  H_STAND_def H_CROUCH_def H_STAND_BIG_def H_CROUCH_BIG_def CROUCH_SLIDE_TRIGGER_SPEED_def
  CROUCH_SLIDE_TIME_BASE_def CROUCH_SLIDE_DECEL_BASE_def CROUCH_SLIDE_MIN_DIST_def

lemma those_map_Some:
  "(\<And>x. x \<in> set xs \<Longrightarrow> f x = Some (h x)) \<Longrightarrow> those (map f xs) = Some (map h xs)"
  by (induction xs) auto

lemma scan_row_in_range:
  assumes "\<And>tx. tx \<in> set txs \<Longrightarrow> 0 \<le> tx \<and> nat tx < length row"
  shows "scan_row row ty txs = Some (filter nonblank (map (\<lambda>tx. (tx, ty, row ! nat tx)) txs))"
proof -
  have "those (map (\<lambda>tx. if nat tx < length row then Some (tx, ty, row ! nat tx) else None) txs)
        = Some (map (\<lambda>tx. (tx, ty, row ! nat tx)) txs)"
    by (rule those_map_Some) (use assms in auto)
  moreover have "(\<lambda>(tx, ty, ch). ch \<noteq> CHR '' '') = nonblank"
    by (auto simp: nonblank_def fun_eq_iff)
  ultimately show ?thesis by (simp add: scan_row_def)
qed

lemma rect_grid_row_length:
  assumes "rect_grid g" "0 \<le> ty" "ty < grid_height g"
  shows "int (length (g ! nat ty)) = grid_width g"
proof -
  have "nat ty < length g" using assms(2,3) by (simp add: grid_height_def)
  then have "g ! nat ty \<in> set g" by (rule nth_mem)
  with assms(1) have "length (g ! nat ty) = length (hd g)"
    unfolding rect_grid_def by blast
  then show ?thesis unfolding grid_width_def by (rule arg_cong)
qed

lemma tiles_in_aabb_rect_grid:
  assumes "rect_grid g"
  shows "tiles_in_aabb g r = Some (tiles_list g r)"
proof -
  from assms have "g \<noteq> []" unfolding rect_grid_def by blast
  then obtain row0 rest where g: "g = row0 # rest"
    by (cases g) simp_all
  define a where "a = max 0 (rleft r div TILE)"
  define b where "b = min (grid_width g - 1) (rright r div TILE)"
  define c where "c = max 0 (rtop r div TILE)"
  define d where "d = min (grid_height g - 1) (rbottom r div TILE)"
  have row: "scan_row (g ! nat ty) ty [a..b]
             = Some (filter nonblank (map (\<lambda>tx. (tx, ty, cell g tx ty)) [a..b]))"
    if "ty \<in> set [c..d]" for ty
  proof -
    from that have ty: "0 \<le> ty" "ty < grid_height g" by (auto simp: c_def d_def)
    have len: "int (length (g ! nat ty)) = grid_width g"
      by (rule rect_grid_row_length[OF assms ty])
    have "scan_row (g ! nat ty) ty [a..b]
          = Some (filter nonblank (map (\<lambda>tx. (tx, ty, (g ! nat ty) ! nat tx)) [a..b]))"
      by (rule scan_row_in_range) (use len in \<open>auto simp: a_def b_def\<close>)
    then show ?thesis by (simp add: cell_def)
  qed
  have "those (map (\<lambda>ty. scan_row (g ! nat ty) ty [a..b]) [c..d])
        = Some (map (\<lambda>ty. filter nonblank (map (\<lambda>tx. (tx, ty, cell g tx ty)) [a..b])) [c..d])"
    by (rule those_map_Some) (rule row)
  moreover have "tiles_in_aabb g r
        = map_option concat (those (map (\<lambda>ty. scan_row (g ! nat ty) ty [a..b]) [c..d]))"
    unfolding tiles_in_aabb_def a_def b_def c_def d_def grid_width_def grid_height_def
    by (simp add: g Let_def)
  ultimately show ?thesis
    by (simp add: tiles_list_def a_def b_def c_def d_def)
qed

lemma div48_le_iff: "(a div 48 \<le> tx) = (a < (tx + 1) * 48)" for a tx :: int
proof -
  define q m where "q = a div 48" and "m = a mod 48"
  have "a = 48 * q + m" "0 \<le> m" "m < 48" by (simp_all add: q_def m_def)
  then have "(q \<le> tx) = (a < (tx + 1) * 48)" by auto
  then show ?thesis by (simp add: q_def)
qed

lemma le_div48_iff: "(tx \<le> a div 48) = (tx * 48 \<le> a)" for a tx :: int
proof -
  have "a = 48 * (a div 48) + a mod 48" by simp
  moreover have "0 \<le> a mod 48" "a mod 48 < 48" by simp_all
  ultimately show ?thesis by linarith
qed

lemma set_tiles_list:
  "set (tiles_list g r) =
     {(tx, ty, ch). in_grid g tx ty \<and> touches r tx ty \<and> ch = cell g tx ty \<and> ch \<noteq> CHR '' ''}"
proof -
  have 1: "(a div 48 \<le> tx) = (a < (tx + 1) * 48)" for a tx :: int
    by (rule div48_le_iff)
  have 2: "(tx \<le> a div 48) = (tx * 48 \<le> a)" for a tx :: int
    by (rule le_div48_iff)
  have mem: "(tx, ty, ch) \<in> set (tiles_list g r) \<longleftrightarrow>
           ty \<in> {max 0 (rtop r div TILE)..min (grid_height g - 1) (rbottom r div TILE)}
           \<and> tx \<in> {max 0 (rleft r div TILE)..min (grid_width g - 1) (rright r div TILE)}
           \<and> ch = cell g tx ty \<and> ch \<noteq> CHR '' ''" for tx ty ch
  proof -
    have inner: "(tx, ty, ch) \<in> set (filter nonblank (map (\<lambda>tx. (tx, ty', cell g tx ty')) txs))
                 \<longleftrightarrow> ty = ty' \<and> tx \<in> set txs \<and> ch = cell g tx ty \<and> ch \<noteq> CHR '' ''"
      for ty' txs
      by (auto simp: nonblank_def)
    show ?thesis
      unfolding tiles_list_def set_concat set_map UN_iff image_iff bex_simps inner
      by auto
  qed
  have rng: "ty \<in> {max 0 (rtop r div TILE)..min (grid_height g - 1) (rbottom r div TILE)}
           \<and> tx \<in> {max 0 (rleft r div TILE)..min (grid_width g - 1) (rright r div TILE)}
           \<longleftrightarrow> in_grid g tx ty \<and> touches r tx ty" for tx ty
    unfolding in_grid_def touches_def TILE_def atLeastAtMost_iff max.bounded_iff min.bounded_iff
      1 2 by auto
  have 3: "(tx, ty, ch) \<in> set (tiles_list g r) \<longleftrightarrow>
           in_grid g tx ty \<and> touches r tx ty \<and> ch = cell g tx ty \<and> ch \<noteq> CHR '' ''" for tx ty ch
    using mem[of tx ty ch] rng[of ty tx] by blast
  show ?thesis using 3 by auto
qed

lemma row_major_concat:
  assumes "sorted_wrt (<) tys" "sorted_wrt (<) txs"
  shows "sorted_wrt row_major
           (concat (map (\<lambda>ty. filter P (map (\<lambda>tx. (tx, ty, f tx ty)) txs)) tys))"
  using assms(1)
proof (induction tys)
  case Nil
  then show ?case by simp
next
  case (Cons ty tys)
  have row: "sorted_wrt row_major (filter P (map (\<lambda>tx. (tx, ty, f tx ty)) txs))"
    using assms(2)
    by (intro sorted_wrt_filter) (simp add: sorted_wrt_map row_major_def)
  have cross: "row_major s t"
    if "s \<in> set (filter P (map (\<lambda>tx. (tx, ty, f tx ty)) txs))"
       "t \<in> set (concat (map (\<lambda>ty. filter P (map (\<lambda>tx. (tx, ty, f tx ty)) txs)) tys))" for s t
    using that Cons.prems by (auto simp: row_major_def)
  have "sorted_wrt (<) tys" using Cons.prems by simp
  then have rest: "sorted_wrt row_major
           (concat (map (\<lambda>ty. filter P (map (\<lambda>tx. (tx, ty, f tx ty)) txs)) tys))"
    by (rule Cons.IH)
  show ?case
    using row rest cross by (simp add: sorted_wrt_append)
qed

lemma sorted_tiles_list: "sorted_wrt row_major (tiles_list g r)"
  unfolding tiles_list_def
  by (rule row_major_concat) (simp_all add: sorted_wrt_upto)

lemma collide_touches:
  assumes "rwidth r > 0" "rheight r > 0" "colliderect r (tile_rect tx ty)"
  shows "touches r tx ty"
proof -
  have "rleft r < rright (tile_rect tx ty)" "rleft (tile_rect tx ty) < rright r"
       "rtop r < rbottom (tile_rect tx ty)" "rtop (tile_rect tx ty) < rbottom r"
    using assms
    by (simp_all add: colliderect_def tile_rect_def Rect_def rright_def rbottom_def TILE_def
        split: if_splits)
  then show ?thesis
    by (simp add: tile_rect_def Rect_def rright_def rbottom_def touches_def TILE_def)
qed


text \<open>
  C8 (amended). On a grid with at least one row and rows of equal length,
  \<^verbatim>\<open>tiles_in_aabb\<close> never raises and yields, in row-major order and each once, exactly the
  non-empty cells inside the grid whose square meets the rectangle with its right and
  bottom edge lines counted in. Every non-empty cell that overlaps a rectangle of
  positive size in the sense of \<^verbatim>\<open>colliderect\<close> is among them; a cell that only touches
  the right or bottom edge is yielded as well.
\<close>

theorem tiles_in_aabb_yields_touching_cells:
  assumes "rect_grid g"
  shows "\<exists>ts. tiles_in_aabb g r = Some ts
          \<and> set ts = {(tx, ty, ch). in_grid g tx ty \<and> touches r tx ty
                                    \<and> ch = cell g tx ty \<and> ch \<noteq> CHR '' ''}
          \<and> sorted_wrt row_major ts
          \<and> (0 < rwidth r \<and> 0 < rheight r \<longrightarrow>
               (\<forall>tx ty. in_grid g tx ty \<and> cell g tx ty \<noteq> CHR '' ''
                          \<and> colliderect r (tile_rect tx ty)
                  \<longrightarrow> (tx, ty, cell g tx ty) \<in> set ts))"
proof -
  have "tiles_in_aabb g r = Some (tiles_list g r)"
    by (rule tiles_in_aabb_rect_grid[OF assms])
  moreover have "(tx, ty, cell g tx ty) \<in> set (tiles_list g r)"
    if "0 < rwidth r" "0 < rheight r" "in_grid g tx ty" "cell g tx ty \<noteq> CHR '' ''"
       "colliderect r (tile_rect tx ty)" for tx ty
    using that collide_touches[of r tx ty] by (simp add: set_tiles_list)
  ultimately show ?thesis
    using set_tiles_list[of g r] sorted_tiles_list[of g r] by blast
qed

theorem tiles_in_aabb_yields_touching_cells_witness:
  "rect_grid [''X X'', ''  =''] \<and>
   (\<exists>ts. tiles_in_aabb [''X X'', ''  =''] (Rect 10 10 100 30) = Some ts
      \<and> set ts = {(tx, ty, ch). in_grid [''X X'', ''  =''] tx ty \<and> touches (Rect 10 10 100 30) tx ty
                                \<and> ch = cell [''X X'', ''  =''] tx ty \<and> ch \<noteq> CHR '' ''}
      \<and> sorted_wrt row_major ts
      \<and> (0 < rwidth (Rect 10 10 100 30) \<and> 0 < rheight (Rect 10 10 100 30) \<longrightarrow>
           (\<forall>tx ty. in_grid [''X X'', ''  =''] tx ty \<and> cell [''X X'', ''  =''] tx ty \<noteq> CHR '' ''
                      \<and> colliderect (Rect 10 10 100 30) (tile_rect tx ty)
              \<longrightarrow> (tx, ty, cell [''X X'', ''  =''] tx ty) \<in> set ts)))"
proof -
  have h: "rect_grid [''X X'', ''  ='']" by (simp add: rect_grid_def)
  show ?thesis
    using h tiles_in_aabb_yields_touching_cells[OF h, of "Rect 10 10 100 30"] by blast
qed

text \<open>
  C8 as stated fails: the rectangle \<^verbatim>\<open>Rect(0, 0, 48, 48)\<close> covers exactly tile \<open>(0, 0)\<close>
  and does not intersect the square of tile \<open>(1, 0)\<close>, yet that tile is yielded.
\<close>

theorem tiles_in_aabb_yields_untouched_tile:
  "rect_grid [''XX'']
   \<and> tiles_in_aabb [''XX''] (Rect 0 0 48 48) = Some [(0, 0, CHR ''X''), (1, 0, CHR ''X'')]
   \<and> \<not> colliderect (Rect 0 0 48 48) (tile_rect 1 0)"
  by (simp add: rect_grid_def tiles_in_aabb_def scan_row_def Rect_def rright_def rbottom_def
      TILE_def upto.simps colliderect_def tile_rect_def)

section \<open>Form changes\<close>

lemma fits_at_rect_grid:
  assumes "rect_grid g"
  shows "fits_at g p hgt = Some (fits g p hgt)"
proof -
  obtain b where "fits_at g p hgt = Some b"
    by (simp add: fits_at_def tiles_in_aabb_rect_grid[OF assms])
  then show ?thesis by (simp add: fits_def)
qed

lemma rect_fits_rect_grid:
  "rect_grid g \<Longrightarrow> rect_fits (Some g) hgt p = Some (fits g p hgt)"
  by (simp add: rect_fits_def fits_at_rect_grid)


text \<open>
  The branches of \<^verbatim>\<open>set_form("big", tilemap)\<close> for a small player on a rectangular grid, in
  terms of the two results of \<^verbatim>\<open>_rect_fits\<close>.
\<close>

lemma set_form_big_cases:
  assumes "rect_grid g" "form p = Small"
  shows "\<exists>ok p'. set_form Big (Some g) p = Some (ok, p')
          \<and> (ok \<longleftrightarrow> fits g p H_STAND_BIG \<or> fits g p H_CROUCH_BIG)
          \<and> (ok \<longrightarrow> form p' = Big \<and> h_stand p' = H_STAND_BIG \<and> h_crouch p' = H_CROUCH_BIG)
          \<and> (fits g p H_STAND_BIG \<longrightarrow>
                crouch p' = crouch p \<and> ph p' = (if crouch p then H_CROUCH_BIG else H_STAND_BIG))
          \<and> (\<not> fits g p H_STAND_BIG \<and> fits g p H_CROUCH_BIG \<longrightarrow>
                crouch p' \<and> ph p' = H_CROUCH_BIG)
          \<and> (\<not> fits g p H_STAND_BIG \<and> \<not> fits g p H_CROUCH_BIG \<longrightarrow> \<not> ok \<and> p' = p)"
  using assms
  by (simp add: set_form_def rect_fits_rect_grid Let_def)

section \<open>The grid callbacks\<close>

lemma in_grid_row_length:
  assumes "rect_grid g" "in_grid g tx ty"
  shows "nat ty < length g" "nat tx < length (g ! nat ty)"
proof -
  from assms(2) have ty: "0 \<le> ty" "ty < grid_height g" and tx: "0 \<le> tx" "tx < grid_width g"
    by (simp_all add: in_grid_def)
  show "nat ty < length g" using ty by (simp add: grid_height_def)
  have "int (length (g ! nat ty)) = grid_width g"
    by (rule rect_grid_row_length[OF assms(1) ty])
  with tx show "nat tx < length (g ! nat ty)" by linarith
qed

lemma grid_get_in_grid:
  assumes "rect_grid g" "in_grid g tx ty"
  shows "grid_get g tx ty = Some (cell g tx ty)"
proof -
  note len = in_grid_row_length[OF assms]
  from assms(2) have nn: "0 \<le> ty" "0 \<le> tx" by (simp_all add: in_grid_def)
  have "py_index g ty = Some (nat ty)" using nn len(1) by (simp add: py_index_def)
  moreover have "py_index (g ! nat ty) tx = Some (nat tx)"
    using nn len(2) by (simp add: py_index_def)
  ultimately show ?thesis by (simp add: grid_get_def cell_def)
qed

lemma grid_set_in_grid:
  assumes "rect_grid g" "in_grid g tx ty"
  shows "grid_set g tx ty c = Some (with_cell g tx ty c)"
proof -
  note len = in_grid_row_length[OF assms]
  from assms(2) have nn: "0 \<le> ty" "0 \<le> tx" by (simp_all add: in_grid_def)
  have "py_index g ty = Some (nat ty)" using nn len(1) by (simp add: py_index_def)
  moreover have "py_index (g ! nat ty) tx = Some (nat tx)"
    using nn len(2) by (simp add: py_index_def)
  ultimately show ?thesis by (simp add: grid_set_def with_cell_def)
qed

lemma length_row_with_cell:
  "i < length g \<Longrightarrow> length (with_cell g tx ty c ! i) = length (g ! i)"
  by (cases "i = nat ty") (simp_all add: with_cell_def)

lemma rect_grid_with_cell:
  assumes "rect_grid g"
  shows "rect_grid (with_cell g tx ty c)"
proof -
  from assms have ne: "g \<noteq> []" and len: "\<And>row. row \<in> set g \<Longrightarrow> length row = length (hd g)"
    unfolding rect_grid_def by blast+
  have hd0: "hd g = g ! 0" using ne by (simp add: hd_conv_nth)
  have all: "length (g ! i) = length (g ! 0)" if "i < length g" for i
    using len[OF nth_mem[OF that]] hd0 by simp
  let ?g' = "with_cell g tx ty c"
  have lg: "length ?g' = length g" by (simp add: with_cell_def)
  have row: "length (?g' ! i) = length (g ! i)" if "i < length g" for i
    using that by (rule length_row_with_cell)
  have ne': "?g' \<noteq> []" using ne lg by (metis length_0_conv)
  have hd': "hd ?g' = ?g' ! 0" using ne' by (simp add: hd_conv_nth)
  have "length r = length (hd ?g')" if "r \<in> set ?g'" for r
  proof -
    from that obtain i where i: "i < length ?g'" "r = ?g' ! i" by (auto simp: in_set_conv_nth)
    have 0: "0 < length g" using ne by simp
    show ?thesis using i lg row[of i] row[OF 0] all[of i] hd' by simp
  qed
  with ne' show ?thesis unfolding rect_grid_def by blast
qed

lemma grid_dims_with_cell:
  "grid_height (with_cell g tx ty c) = grid_height g"
  "rect_grid g \<Longrightarrow> grid_width (with_cell g tx ty c) = grid_width g"
proof -
  show "grid_height (with_cell g tx ty c) = grid_height g"
    by (simp add: grid_height_def with_cell_def)
  assume rg: "rect_grid g"
  then have ne: "g \<noteq> []" unfolding rect_grid_def by blast
  then have 0: "0 < length g" by simp
  have "hd (with_cell g tx ty c) = (with_cell g tx ty c) ! 0"
    using ne by (simp add: hd_conv_nth with_cell_def)
  moreover have "hd g = g ! 0" using ne by (simp add: hd_conv_nth)
  moreover have "length ((with_cell g tx ty c) ! 0) = length (g ! 0)"
    using 0 by (rule length_row_with_cell)
  ultimately show "grid_width (with_cell g tx ty c) = grid_width g"
    by (simp add: grid_width_def)
qed

lemma cell_with_cell:
  assumes "rect_grid g" "in_grid g tx ty" "0 \<le> tx'" "0 \<le> ty'"
  shows "cell (with_cell g tx ty c) tx' ty' = (if tx' = tx \<and> ty' = ty then c else cell g tx' ty')"
proof -
  note len = in_grid_row_length[OF assms(1,2)]
  from assms(2) have nn: "0 \<le> ty" "0 \<le> tx" by (simp_all add: in_grid_def)
  have e1: "nat ty' = nat ty \<longleftrightarrow> ty' = ty" using nn assms by linarith
  have e2: "nat tx' = nat tx \<longleftrightarrow> tx' = tx" using nn assms by linarith
  show ?thesis
    using len e1 e2 by (auto simp: cell_def with_cell_def nth_list_update)
qed

lemma hit_block_closed_form:
  assumes "rect_grid (tilemap g)"
  shows "hit_block tx ty ch g =
     Some (if in_grid (tilemap g) tx ty \<and> cell (tilemap g) tx ty = ch then
             (if ch = CHR ''B'' then
                g\<lparr>tilemap := with_cell (tilemap g) tx ty CHR ''X'',
                  items := items g @ [MushroomItem (real_of_int (tx * TILE) + real_of_int TILE / 2)
                             (real_of_int (ty * TILE))
                             (if pos_x (player g) \<ge> real_of_int (tx * TILE) + real_of_int TILE / 2
                              then - 1 else 1)]\<rparr>
              else if ch = CHR ''Q'' then
                g\<lparr>tilemap := with_cell (tilemap g) tx ty CHR ''X'', coins_got := coins_got g + 1,
                  player := (player g)\<lparr>coins := coins (player g) + 1\<rparr>\<rparr>
              else if ch = CHR ''S'' \<and> form (player g) = Big then
                g\<lparr>tilemap := with_cell (tilemap g) tx ty CHR '' ''\<rparr>
              else g)
           else g)"
proof (cases "in_grid (tilemap g) tx ty")
  case False
  then show ?thesis
    by (auto simp: hit_block_def in_grid_def grid_height_def grid_width_def)
next
  case True
  then have b: "\<not> (ty < 0 \<or> ty \<ge> int (length (tilemap g)))"
               "\<not> (tx < 0 \<or> tx \<ge> int (length (hd (tilemap g))))"
    by (auto simp: in_grid_def grid_height_def grid_width_def)
  show ?thesis
    using True b
    by (simp add: hit_block_def grid_get_in_grid[OF assms True] grid_set_in_grid[OF assms True]
        Let_def)
qed


text \<open>
  C7. On a rectangular grid \<^verbatim>\<open>hit_block\<close> always returns, and it leaves the whole session
  (tile grid, coin counters, items, player) as it was unless the target cell lies in
  the grid, holds the reported code, and that code is \<open>B\<close>, \<open>Q\<close>, or \<open>S\<close> with a big
  player; in that case the cell becomes ground (\<open>B\<close>, \<open>Q\<close>) or empty (\<open>S\<close>).
  \<^verbatim>\<open>destroy_gate\<close> on a cell of the grid empties the cell when it holds a gate and
  otherwise returns with the session unchanged.
\<close>

theorem callbacks_check_cell_before_mutating:
  assumes "rect_grid (tilemap g)"
  shows "(\<exists>g'. hit_block tx ty ch g = Some g'
           \<and> (\<not> (in_grid (tilemap g) tx ty \<and> cell (tilemap g) tx ty = ch
                  \<and> (ch = CHR ''B'' \<or> ch = CHR ''Q'' \<or> (ch = CHR ''S'' \<and> form (player g) = Big)))
                \<longrightarrow> g' = g)
           \<and> (in_grid (tilemap g) tx ty \<and> cell (tilemap g) tx ty = ch
                  \<and> (ch = CHR ''B'' \<or> ch = CHR ''Q'' \<or> (ch = CHR ''S'' \<and> form (player g) = Big))
                \<longrightarrow> tilemap g' = with_cell (tilemap g) tx ty
                                     (if ch = CHR ''S'' then CHR '' '' else CHR ''X'')))
       \<and> (in_grid (tilemap g) tx ty \<longrightarrow>
            destroy_gate tx ty g =
              Some (if cell (tilemap g) tx ty = CHR ''|''
                    then g\<lparr>tilemap := with_cell (tilemap g) tx ty CHR '' ''\<rparr> else g))"
proof -
  have "destroy_gate tx ty g =
          Some (if cell (tilemap g) tx ty = CHR ''|''
                then g\<lparr>tilemap := with_cell (tilemap g) tx ty CHR '' ''\<rparr> else g)"
    if "in_grid (tilemap g) tx ty"
    by (simp add: destroy_gate_def grid_get_in_grid[OF assms that]
        grid_set_in_grid[OF assms that])
  then show ?thesis
    by (auto simp: hit_block_closed_form[OF assms])
qed

theorem callbacks_check_cell_before_mutating_witness:
  "rect_grid (tilemap \<lparr>tilemap = [''S|''], player = Player 24 100, items = [], coins_got = 0,
                       state = RUN, jp_last = False, sh_last = False, cr_last = False\<rparr>)
   \<and> hit_block 0 0 CHR ''S'' \<lparr>tilemap = [''S|''], player = Player 24 100, items = [],
        coins_got = 0, state = RUN, jp_last = False, sh_last = False, cr_last = False\<rparr>
     = Some \<lparr>tilemap = [''S|''], player = Player 24 100, items = [], coins_got = 0,
             state = RUN, jp_last = False, sh_last = False, cr_last = False\<rparr>
   \<and> destroy_gate 1 0 \<lparr>tilemap = [''S|''], player = Player 24 100, items = [],
        coins_got = 0, state = RUN, jp_last = False, sh_last = False, cr_last = False\<rparr>
     = Some \<lparr>tilemap = [''S ''], player = Player 24 100, items = [], coins_got = 0,
             state = RUN, jp_last = False, sh_last = False, cr_last = False\<rparr>"
proof -
  let ?g = "\<lparr>tilemap = [''S|''], player = Player 24 100, items = [], coins_got = 0,
             state = RUN, jp_last = False, sh_last = False, cr_last = False\<rparr>"
  have h: "rect_grid (tilemap ?g)" by (simp add: rect_grid_def)
  have small: "form (player ?g) = Small" by (simp add: Player_def)
  have inb: "in_grid (tilemap ?g) 1 0" by (simp add: in_grid_def grid_width_def grid_height_def)
  have c: "cell (tilemap ?g) 1 0 = CHR ''|''" by (simp add: cell_def)
  have w: "with_cell (tilemap ?g) 1 0 CHR '' '' = [''S '']" by (simp add: with_cell_def)
  from callbacks_check_cell_before_mutating[OF h, of 0 0 "CHR ''S''"] small
  have "hit_block 0 0 CHR ''S'' ?g = Some ?g" by auto
  moreover from callbacks_check_cell_before_mutating[OF h, of 1 0] inb c w
  have "destroy_gate 1 0 ?g = Some (?g\<lparr>tilemap := [''S '']\<rparr>)" by simp
  ultimately show ?thesis using h by simp
qed

section \<open>Standing room\<close>

lemma blocks_stand_nonblank: "blocks_stand c \<Longrightarrow> c \<noteq> CHR '' ''"
  by (auto simp: blocks_stand_def solid_def)

lemma fits_iff_core_clear:
  assumes "rect_grid g" "8 \<le> pw p" "2 \<le> hgt"
  shows "fits g p hgt \<longleftrightarrow> \<not> hits_blocking g (core (hitbox p hgt))"
proof -
  let ?r = "hitbox p hgt"
  let ?q = "inflate ?r (- 8) (- 2)"
  have w: "rwidth ?r = pw p" "rheight ?r = hgt" by (simp_all add: hitbox_def Rect_def)
  have fa: "fits_at g p hgt = Some (\<not> list_ex (\<lambda>(tx, ty, ch). blocks_stand ch
                           \<and> colliderect ?r (tile_rect tx ty)) (tiles_list g ?q))"
    by (simp add: fits_at_def tiles_in_aabb_rect_grid[OF assms(1)])
  have key: "touches ?q tx ty \<and> colliderect ?r (tile_rect tx ty)
             \<longleftrightarrow> colliderect (core ?r) (tile_rect tx ty)" for tx ty
    using assms(2,3) w
    by (auto simp: touches_def colliderect_def core_def inflate_def c_div2_def Rect_def
        tile_rect_def rright_def rbottom_def TILE_def)
  have "list_ex (\<lambda>(tx, ty, ch). blocks_stand ch \<and> colliderect ?r (tile_rect tx ty)) (tiles_list g ?q)
        \<longleftrightarrow> (\<exists>tx ty. in_grid g tx ty \<and> touches ?q tx ty \<and> blocks_stand (cell g tx ty)
                       \<and> colliderect ?r (tile_rect tx ty))"
    unfolding list_ex_iff set_tiles_list
    using blocks_stand_nonblank by fastforce
  also have "\<dots> \<longleftrightarrow> hits_blocking g (core ?r)"
    unfolding hits_blocking_def using key by blast
  finally show ?thesis using fa by (simp add: fits_def)
qed

lemma core_inside:
  assumes "8 \<le> rwidth r" "2 \<le> rheight r" "hits_blocking g (core r)"
  shows "hits_blocking g r"
proof -
  from assms(3) obtain tx ty where t: "in_grid g tx ty" "blocks_stand (cell g tx ty)"
      "colliderect (core r) (tile_rect tx ty)"
    unfolding hits_blocking_def by blast
  have "colliderect r (tile_rect tx ty)"
    using t(3) assms(1,2)
    by (auto simp: colliderect_def core_def Rect_def tile_rect_def rright_def rbottom_def
        TILE_def split: if_splits)
  with t show ?thesis unfolding hits_blocking_def by blast
qed

lemma can_stand_rect_grid:
  assumes "rect_grid g" "8 \<le> pw p" "2 \<le> h_stand p"
  shows "can_stand g p = Some (\<not> stand_blocked g p)"
  using fits_iff_core_clear[OF assms] fits_at_rect_grid[OF assms(1), of p "h_stand p"]
  by (simp add: can_stand_def stand_blocked_def)

section \<open>The horizontal sweep\<close>

lemma posture_tick [simp]: "posture (tick_timers dt p) = posture p"
  by (simp add: posture_def tick_timers_def)

lemma posture_input [simp]: "posture (snd (input_axis k p)) = posture p"
  by (simp add: posture_def input_axis_def Let_def)

lemma posture_start_dash [simp]: "posture (start_dash p) = posture p"
  by (simp add: posture_def start_dash_def Let_def)

lemma posture_sprint [simp]: "posture (sprint_phase k p) = posture p"
  by (simp add: posture_def sprint_phase_def Let_def)

lemma posture_skid [simp]: "posture (skid_trigger a b p) = posture p"
  by (simp add: posture_def skid_trigger_def)

lemma posture_accel [simp]: "posture (horizontal_accel dt ax p) = posture p"
  by (simp add: posture_def horizontal_accel_def add_trail_def Let_def)

lemma posture_clamp [simp]: "posture (clamp_speed p) = posture p"
  by (simp add: posture_def clamp_speed_def Let_def)

lemma posture_gravity [simp]: "posture (gravity_jump dt k p) = posture p"
  by (simp add: posture_def gravity_jump_def Let_def)

lemma posture_tilt [simp]: "posture (tilt dt p) = posture p"
  by (simp add: posture_def tilt_def Let_def)

lemma posture_block_x [simp]: "posture (block_x r tx ty p) = posture p"
  by (simp add: posture_def block_x_def Let_def)

lemma posture_sweep_x: "posture (fst (sweep_x r ts (p, cg))) = posture p"
proof (induction ts arbitrary: p cg)
  case Nil
  then show ?case by simp
next
  case (Cons t ts)
  obtain tx ty ch where t: "t = (tx, ty, ch)" by (cases t)
  show ?case
    by (simp add: t Let_def Cons.IH split: prod.splits)
qed


lemma sweep_x_dash_t: "dash_t (fst (sweep_x r ts (p, cg))) = dash_t p"
proof (induction ts arbitrary: p cg)
  case Nil
  then show ?case by simp
next
  case (Cons t ts)
  obtain tx ty ch where t: "t = (tx, ty, ch)" by (cases t)
  show ?case
    by (simp add: t Let_def Cons.IH block_x_def split: prod.splits)
qed

lemma dash_t_block_x [simp]: "dash_t (block_x r tx ty p) = dash_t p"
  by (simp add: block_x_def Let_def)

lemma sweep_x_dashing:
  assumes "dash_t p > 0"
  shows "sweep_x r ts (p, cg) =
           (fst (sweep_x r (filter (\<lambda>t. \<not> is_gate t) ts) (p, None)),
            case last_gate ts of None \<Rightarrow> cg | Some c \<Rightarrow> Some c)"
  using assms
proof (induction ts arbitrary: p cg)
  case Nil
  then show ?case by (simp add: last_gate_def)
next
  case (Cons t ts)
  obtain tx ty ch where t: "t = (tx, ty, ch)" by (cases t)
  show ?case
  proof (cases "ch = CHR ''|''")
    case True
    have lg: "last_gate (t # ts) = (case last_gate ts of None \<Rightarrow> Some (tx, ty) | Some c \<Rightarrow> Some c)"
      by (simp add: last_gate_def t True is_gate_def split: list.splits)
    have "sweep_x r (t # ts) (p, cg) = sweep_x r ts (p, Some (tx, ty))"
      using Cons.prems by (simp add: t True solid_def)
    also have "\<dots> = (fst (sweep_x r (filter (\<lambda>t. \<not> is_gate t) ts) (p, None)),
            case last_gate ts of None \<Rightarrow> Some (tx, ty) | Some c \<Rightarrow> Some c)"
      by (rule Cons.IH[OF Cons.prems])
    finally have "sweep_x r (t # ts) (p, cg) =
        (fst (sweep_x r (filter (\<lambda>t. \<not> is_gate t) ts) (p, None)),
         case last_gate ts of None \<Rightarrow> Some (tx, ty) | Some c \<Rightarrow> Some c)" .
    moreover have "filter (\<lambda>t. \<not> is_gate t) (t # ts) = filter (\<lambda>t. \<not> is_gate t) ts"
      by (simp add: t True is_gate_def)
    ultimately show ?thesis
      unfolding lg by (simp split: option.splits)
  next
    case False
    have lg: "last_gate (t # ts) = last_gate ts"
      by (simp add: last_gate_def t False is_gate_def)
    let ?p2 = "if solid ch then block_x r tx ty p else p"
    have d: "dash_t ?p2 > 0" using Cons.prems by simp
    have "sweep_x r (t # ts) (p, cg) = sweep_x r ts (?p2, cg)"
      by (simp add: t False)
    also have "\<dots> = (fst (sweep_x r (filter (\<lambda>t. \<not> is_gate t) ts) (?p2, None)),
            case last_gate ts of None \<Rightarrow> cg | Some c \<Rightarrow> Some c)"
      by (rule Cons.IH[OF d])
    finally have "sweep_x r (t # ts) (p, cg) =
        (fst (sweep_x r (filter (\<lambda>t. \<not> is_gate t) ts) (?p2, None)),
         case last_gate ts of None \<Rightarrow> cg | Some c \<Rightarrow> Some c)" .
    moreover have "sweep_x r (filter (\<lambda>t. \<not> is_gate t) (t # ts)) (p, None)
        = sweep_x r (filter (\<lambda>t. \<not> is_gate t) ts) (?p2, None)"
      by (simp add: t False is_gate_def)
    ultimately show ?thesis
      unfolding lg by simp
  qed
qed

lemma sweep_x_not_dashing:
  assumes "dash_t p \<le> 0"
  shows "sweep_x r ts (p, cg) = (fst (sweep_x r (map (gate_as CHR ''X'') ts) (p, None)), cg)"
  using assms
proof (induction ts arbitrary: p cg)
  case Nil
  then show ?case by simp
next
  case (Cons t ts)
  obtain tx ty ch where t: "t = (tx, ty, ch)" by (cases t)
  show ?case
  proof (cases "ch = CHR ''|''")
    case True
    have d: "dash_t (block_x r tx ty p) \<le> 0" using Cons.prems by simp
    have "sweep_x r (t # ts) (p, cg) = sweep_x r ts (block_x r tx ty p, cg)"
      using Cons.prems by (simp add: t True solid_def)
    moreover have "sweep_x r (map (gate_as CHR ''X'') (t # ts)) (p, None)
           = sweep_x r (map (gate_as CHR ''X'') ts) (block_x r tx ty p, None)"
      by (simp add: t True gate_as_def solid_def)
    ultimately show ?thesis using Cons.IH[OF d] by simp
  next
    case False
    let ?p2 = "if solid ch then block_x r tx ty p else p"
    have d: "dash_t ?p2 \<le> 0" using Cons.prems by simp
    have "sweep_x r (t # ts) (p, cg) = sweep_x r ts (?p2, cg)"
      by (simp add: t False)
    moreover have "sweep_x r (map (gate_as CHR ''X'') (t # ts)) (p, None)
           = sweep_x r (map (gate_as CHR ''X'') ts) (?p2, None)"
      by (simp add: t False gate_as_def)
    ultimately show ?thesis using Cons.IH[OF d] by simp
  qed
qed

lemma rect_grid_replace_gates:
  assumes "rect_grid g"
  shows "rect_grid (replace_gates c g)"
proof -
  from assms have ne: "g \<noteq> []" and len: "\<And>row. row \<in> set g \<Longrightarrow> length row = length (hd g)"
    unfolding rect_grid_def by blast+
  have hd: "hd (replace_gates c g) = map (\<lambda>ch. if ch = CHR ''|'' then c else ch) (hd g)"
    using ne by (simp add: replace_gates_def hd_map)
  have "length row = length (hd (replace_gates c g))" if "row \<in> set (replace_gates c g)" for row
  proof -
    from that obtain row0 where "row0 \<in> set g" "row = map (\<lambda>ch. if ch = CHR ''|'' then c else ch) row0"
      by (auto simp: replace_gates_def)
    then show ?thesis using len[of row0] hd by simp
  qed
  moreover have "replace_gates c g \<noteq> []" using ne by (simp add: replace_gates_def)
  ultimately show ?thesis unfolding rect_grid_def by blast
qed

lemma grid_dims_replace_gates:
  "grid_height (replace_gates c g) = grid_height g"
  "g \<noteq> [] \<Longrightarrow> grid_width (replace_gates c g) = grid_width g"
  by (simp_all add: grid_height_def grid_width_def replace_gates_def hd_map)

lemma cell_replace_gates:
  assumes "rect_grid g" "in_grid g tx ty"
  shows "cell (replace_gates c g) tx ty = (if cell g tx ty = CHR ''|'' then c else cell g tx ty)"
  using in_grid_row_length[OF assms]
  by (simp add: cell_def replace_gates_def)

lemma row_tiles_gate_as_X:
  "filter nonblank (map (\<lambda>tx. (tx, ty, if f tx = CHR ''|'' then CHR ''X'' else f tx)) xs)
   = map (gate_as CHR ''X'') (filter nonblank (map (\<lambda>tx. (tx, ty, f tx)) xs))"
  by (induction xs) (auto simp: nonblank_def gate_as_def)

lemma row_tiles_gate_blank:
  "filter nonblank (map (\<lambda>tx. (tx, ty, if f tx = CHR ''|'' then CHR '' '' else f tx)) xs)
   = filter (\<lambda>t. \<not> is_gate t) (filter nonblank (map (\<lambda>tx. (tx, ty, f tx)) xs))"
  by (induction xs) (auto simp: nonblank_def is_gate_def)

lemma tiles_list_replace_cells:
  assumes "rect_grid g"
  shows "tiles_list (replace_gates c g) r =
     concat (map (\<lambda>ty. filter nonblank (map (\<lambda>tx. (tx, ty,
                   if cell g tx ty = CHR ''|'' then c else cell g tx ty))
                          [max 0 (rleft r div TILE)..min (grid_width g - 1) (rright r div TILE)]))
                 [max 0 (rtop r div TILE)..min (grid_height g - 1) (rbottom r div TILE)])"
proof -
  from assms have ne: "g \<noteq> []" unfolding rect_grid_def by blast
  have c: "cell (replace_gates c g) tx ty = (if cell g tx ty = CHR ''|'' then c else cell g tx ty)"
    if "ty \<in> set [max 0 (rtop r div TILE)..min (grid_height g - 1) (rbottom r div TILE)]"
       "tx \<in> set [max 0 (rleft r div TILE)..min (grid_width g - 1) (rright r div TILE)]" for tx ty
    by (rule cell_replace_gates[OF assms]) (use that in \<open>auto simp: in_grid_def\<close>)
  show ?thesis
    unfolding tiles_list_def grid_dims_replace_gates(1) grid_dims_replace_gates(2)[OF ne]
    by (intro arg_cong[where f=concat] map_cong arg_cong[where f="filter nonblank"] refl)
       (simp add: c)
qed

lemma tiles_list_gates_as_ground:
  assumes "rect_grid g"
  shows "tiles_list (replace_gates CHR ''X'' g) r = map (gate_as CHR ''X'') (tiles_list g r)"
proof -
  have "tiles_list (replace_gates CHR ''X'' g) r =
     concat (map (\<lambda>ty. map (gate_as CHR ''X'') (filter nonblank (map (\<lambda>tx. (tx, ty, cell g tx ty))
                          [max 0 (rleft r div TILE)..min (grid_width g - 1) (rright r div TILE)])))
                 [max 0 (rtop r div TILE)..min (grid_height g - 1) (rbottom r div TILE)])"
    by (simp add: tiles_list_replace_cells[OF assms] row_tiles_gate_as_X)
  also have "\<dots> = map (gate_as CHR ''X'') (tiles_list g r)"
    by (simp add: tiles_list_def map_concat comp_def)
  finally show ?thesis .
qed

lemma tiles_list_gates_removed:
  assumes "rect_grid g"
  shows "tiles_list (replace_gates CHR '' '' g) r = filter (\<lambda>t. \<not> is_gate t) (tiles_list g r)"
proof -
  have "tiles_list (replace_gates CHR '' '' g) r =
     concat (map (\<lambda>ty. filter (\<lambda>t. \<not> is_gate t) (filter nonblank (map (\<lambda>tx. (tx, ty, cell g tx ty))
                          [max 0 (rleft r div TILE)..min (grid_width g - 1) (rright r div TILE)])))
                 [max 0 (rtop r div TILE)..min (grid_height g - 1) (rbottom r div TILE)])"
    by (simp only: tiles_list_replace_cells[OF assms] row_tiles_gate_blank)
  also have "\<dots> = filter (\<lambda>t. \<not> is_gate t) (tiles_list g r)"
    by (simp only: tiles_list_def filter_concat map_map comp_def)
  finally show ?thesis .
qed

lemma last_gate_in_set:
  assumes "last_gate ts = Some (gx, gy)"
  shows "(gx, gy, CHR ''|'') \<in> set ts"
proof -
  from assms obtain ch rest where r: "rev (filter is_gate ts) = (gx, gy, ch) # rest"
    by (auto simp: last_gate_def split: list.splits)
  then have "(gx, gy, ch) \<in> set (rev (filter is_gate ts))" by simp
  then have "(gx, gy, ch) \<in> set ts" "is_gate (gx, gy, ch)" by simp_all
  then show ?thesis by (simp add: is_gate_def)
qed

lemma last_gate_no_gates: "last_gate (filter (\<lambda>t. \<not> is_gate t) ts) = None"
proof -
  have "filter is_gate (filter (\<lambda>t. \<not> is_gate t) ts) = []"
    by (induction ts) auto
  then show ?thesis by (simp add: last_gate_def)
qed

lemma gate_as_X_idem: "map (gate_as CHR ''X'') (map (gate_as CHR ''X'') ts) = map (gate_as CHR ''X'') ts"
  by (induction ts) (auto simp: gate_as_def)

lemma move_horizontal_rect_grid:
  assumes "rect_grid (tilemap g)"
  shows "move_horizontal dt g =
     (let p1 = (player g)\<lparr>pos_x := pos_x (player g) + vx (player g) * dt\<rparr>;
          s = sweep_x (player_rect p1) (tiles_list (tilemap g) (sweep_query dt (player g))) (p1, None)
      in case snd s of None \<Rightarrow> Some (g\<lparr>player := fst s\<rparr>)
         | Some (gx, gy) \<Rightarrow> destroy_gate gx gy (g\<lparr>player := fst s\<rparr>))"
  by (simp add: move_horizontal_def tiles_in_aabb_rect_grid[OF assms] sweep_query_def Let_def
      case_prod_beta)

lemma destroy_gate_in_grid:
  assumes "rect_grid (tilemap g)" "in_grid (tilemap g) tx ty"
  shows "destroy_gate tx ty g =
          Some (if cell (tilemap g) tx ty = CHR ''|''
                then g\<lparr>tilemap := with_cell (tilemap g) tx ty CHR '' ''\<rparr> else g)"
  by (simp add: destroy_gate_def grid_get_in_grid[OF assms] grid_set_in_grid[OF assms])

text \<open>
  What the horizontal move does with gates. On a rectangular grid it always returns.
  While a dash is active, if the sweep's query (the moved hitbox widened by one pixel on each side
  and shortened by one at top and bottom, with the tiles its right and bottom edge
  touch) holds a gate, exactly one cell of the grid changes: the last gate of the query
  in row-major order becomes empty, whether or not the hitbox overlaps it; without a
  gate in the query the grid is unchanged. The player after the move is the player
  the same move gives on the grid without any gate: no gate corrects the position or
  the velocity. When no dash is active the grid is unchanged and the player after the
  move is the player the same move gives on the grid whose gates are ground tiles.
\<close>

theorem dash_sweep_empties_last_gate:
  assumes "rect_grid (tilemap g)"
  shows "\<exists>g'. move_horizontal dt g = Some g'
     \<and> (dash_t (player g) > 0 \<longrightarrow>
          tilemap g' = (case last_gate (tiles_list (tilemap g) (sweep_query dt (player g))) of
                          None \<Rightarrow> tilemap g
                        | Some (gx, gy) \<Rightarrow> with_cell (tilemap g) gx gy CHR '' '')
        \<and> (\<forall>gx gy. last_gate (tiles_list (tilemap g) (sweep_query dt (player g))) = Some (gx, gy)
             \<longrightarrow> in_grid (tilemap g) gx gy \<and> cell (tilemap g) gx gy = CHR ''|''
                 \<and> touches (sweep_query dt (player g)) gx gy
                 \<and> cell (tilemap g') gx gy = CHR '' ''
                 \<and> (\<forall>tx ty. in_grid (tilemap g) tx ty \<and> (tx, ty) \<noteq> (gx, gy)
                      \<longrightarrow> cell (tilemap g') tx ty = cell (tilemap g) tx ty))
        \<and> map_option player
             (move_horizontal dt (g\<lparr>tilemap := replace_gates CHR '' '' (tilemap g)\<rparr>))
            = Some (player g'))
     \<and> (dash_t (player g) \<le> 0 \<longrightarrow>
          tilemap g' = tilemap g
        \<and> map_option player
             (move_horizontal dt (g\<lparr>tilemap := replace_gates CHR ''X'' (tilemap g)\<rparr>))
            = Some (player g'))"
proof -
  let ?tm = "tilemap g"
  let ?p1 = "(player g)\<lparr>pos_x := pos_x (player g) + vx (player g) * dt\<rparr>"
  let ?r = "player_rect ?p1"
  let ?q = "sweep_query dt (player g)"
  let ?ts = "tiles_list ?tm ?q"
  have d1: "dash_t ?p1 = dash_t (player g)" by simp
  show ?thesis
  proof (cases "dash_t (player g) > 0")
    case True
    then have dp: "dash_t ?p1 > 0" by simp
    let ?p2 = "fst (sweep_x ?r (filter (\<lambda>t. \<not> is_gate t) ?ts) (?p1, None))"
    have sw: "sweep_x ?r ?ts (?p1, None) = (?p2, last_gate ?ts)"
      using sweep_x_dashing[OF dp, of ?r ?ts None] by (simp split: option.splits)
    have rg': "rect_grid (tilemap (g\<lparr>tilemap := replace_gates CHR '' '' ?tm\<rparr>))"
      using rect_grid_replace_gates[OF assms] by simp
    have sw': "snd (sweep_x ?r (filter (\<lambda>t. \<not> is_gate t) ?ts) (?p1, None)) = None"
      using arg_cong[OF sweep_x_dashing[OF dp, of ?r "filter (\<lambda>t. \<not> is_gate t) ?ts" None],
          of snd]
      by (simp add: last_gate_no_gates)
    have other: "map_option player
             (move_horizontal dt (g\<lparr>tilemap := replace_gates CHR '' '' ?tm\<rparr>)) = Some ?p2"
      using sw'
      by (simp add: move_horizontal_rect_grid[OF rg'] tiles_list_gates_removed[OF assms] Let_def)
    show ?thesis
    proof (cases "last_gate ?ts")
      case None
      have "move_horizontal dt g = Some (g\<lparr>player := ?p2\<rparr>)"
        by (simp add: move_horizontal_rect_grid[OF assms] sw None Let_def)
      then show ?thesis using True None other by simp
    next
      case (Some c)
      obtain gx gy where c: "c = (gx, gy)" by (cases c)
      have mem: "(gx, gy, CHR ''|'') \<in> set ?ts"
        using last_gate_in_set Some c by blast
      then have ig: "in_grid ?tm gx gy" and tc: "touches ?q gx gy"
        and cg: "cell ?tm gx gy = CHR ''|''"
        by (simp_all add: set_tiles_list)
      let ?g1 = "g\<lparr>player := ?p2\<rparr>"
      have rg1: "rect_grid (tilemap ?g1)" "in_grid (tilemap ?g1) gx gy"
        using assms ig by simp_all
      have mh: "move_horizontal dt g = Some (?g1\<lparr>tilemap := with_cell ?tm gx gy CHR '' ''\<rparr>)"
        using destroy_gate_in_grid[OF rg1] cg
        by (simp add: move_horizontal_rect_grid[OF assms] sw Some c Let_def)
      have nn: "0 \<le> gx" "0 \<le> gy" using ig by (simp_all add: in_grid_def)
      have c1: "cell (with_cell ?tm gx gy CHR '' '') gx gy = CHR '' ''"
        using cell_with_cell[OF assms ig nn] by simp
      have c2: "cell (with_cell ?tm gx gy CHR '' '') tx ty = cell ?tm tx ty"
        if "in_grid ?tm tx ty" "(tx, ty) \<noteq> (gx, gy)" for tx ty
      proof -
        from that(1) have "0 \<le> tx" "0 \<le> ty" by (simp_all add: in_grid_def)
        from cell_with_cell[OF assms ig this] that(2) show ?thesis by auto
      qed
      show ?thesis
        using True mh other ig tc cg c1 c2 by (simp add: Some c)
    qed
  next
    case False
    then have dp: "dash_t ?p1 \<le> 0" by simp
    let ?p2 = "fst (sweep_x ?r (map (gate_as CHR ''X'') ?ts) (?p1, None))"
    have sw: "sweep_x ?r ?ts (?p1, None) = (?p2, None)"
      by (rule sweep_x_not_dashing[OF dp])
    have sw': "snd (sweep_x ?r (map (gate_as CHR ''X'') ?ts) (?p1, None)) = None"
      using arg_cong[OF sweep_x_not_dashing[OF dp, of ?r "map (gate_as CHR ''X'') ?ts" None],
          of snd]
      by simp
    have rg': "rect_grid (tilemap (g\<lparr>tilemap := replace_gates CHR ''X'' ?tm\<rparr>))"
      using rect_grid_replace_gates[OF assms] by simp
    have other: "map_option player
             (move_horizontal dt (g\<lparr>tilemap := replace_gates CHR ''X'' ?tm\<rparr>)) = Some ?p2"
      using sw'
      by (simp add: move_horizontal_rect_grid[OF rg'] tiles_list_gates_as_ground[OF assms] Let_def)
    have "move_horizontal dt g = Some (g\<lparr>player := ?p2\<rparr>)"
      by (simp add: move_horizontal_rect_grid[OF assms] sw Let_def)
    then show ?thesis using False other by simp
  qed
qed


theorem dash_sweep_empties_last_gate_witness:
  "rect_grid ['' ||'', ''XXX'']
   \<and> (\<exists>g'. move_horizontal (1 / 24)
               \<lparr>tilemap = ['' ||'', ''XXX''],
                player = (Player 30 48)\<lparr>vx := 1150, dash_t := 14 / 100\<rparr>,
                items = [], coins_got = 0, state = RUN, jp_last = False, sh_last = True,
                cr_last = False\<rparr> = Some g'
            \<and> tilemap g' = ['' | '', ''XXX''])
   \<and> (\<exists>g'. move_horizontal (1 / 24)
               \<lparr>tilemap = ['' ||'', ''XXX''],
                player = (Player 30 48)\<lparr>vx := 360\<rparr>,
                items = [], coins_got = 0, state = RUN, jp_last = False, sh_last = False,
                cr_last = False\<rparr> = Some g'
            \<and> tilemap g' = ['' ||'', ''XXX''] \<and> vx (player g') = 0 \<and> pos_x (player g') = 30)"
proof -
  let ?gd = "\<lparr>tilemap = ['' ||'', ''XXX''],
                player = (Player 30 48)\<lparr>vx := 1150, dash_t := 14 / 100\<rparr>,
                items = [], coins_got = 0, state = RUN, jp_last = False, sh_last = True,
                cr_last = False\<rparr>"
  let ?gn = "\<lparr>tilemap = ['' ||'', ''XXX''],
                player = (Player 30 48)\<lparr>vx := 360\<rparr>,
                items = [], coins_got = 0, state = RUN, jp_last = False, sh_last = False,
                cr_last = False\<rparr>"
  have h: "rect_grid ['' ||'', ''XXX'']" by (simp add: rect_grid_def)
  have hd: "rect_grid (tilemap ?gd)" and hn: "rect_grid (tilemap ?gn)" using h by simp_all
  have d: "dash_t (player ?gd) > 0" by simp
  have n: "dash_t (player ?gn) \<le> 0" by (simp add: Player_def)
  have lg: "last_gate (tiles_list (tilemap ?gd) (sweep_query (1 / 24) (player ?gd))) = Some (2, 0)"
    by code_simp
  have w: "with_cell (tilemap ?gd) 2 0 CHR '' '' = ['' | '', ''XXX'']"
    by (simp add: with_cell_def)
  have e1: "map_option (vx \<circ> player)
              (move_horizontal (1 / 24) (?gn\<lparr>tilemap := replace_gates CHR ''X'' (tilemap ?gn)\<rparr>))
            = Some 0"
    by code_simp
  have e2: "map_option (pos_x \<circ> player)
              (move_horizontal (1 / 24) (?gn\<lparr>tilemap := replace_gates CHR ''X'' (tilemap ?gn)\<rparr>))
            = Some 30"
    by code_simp
  from dash_sweep_empties_last_gate[OF hd, of "1 / 24"] d lg w
  have 1: "\<exists>g'. move_horizontal (1 / 24) ?gd = Some g' \<and> tilemap g' = ['' | '', ''XXX'']"
    by auto
  from dash_sweep_empties_last_gate[OF hn, of "1 / 24"] n e1 e2
  have 2: "\<exists>g'. move_horizontal (1 / 24) ?gn = Some g' \<and> tilemap g' = ['' ||'', ''XXX'']
              \<and> vx (player g') = 0 \<and> pos_x (player g') = 30"
    by auto
  show ?thesis using h 1 2 by blast
qed

text \<open>
  C4. A dash that brings the player into contact with a gate should empty exactly that
  gate and leave the adjacent gates alone. The code does not test the contact in the
  dash branch of the horizontal sweep: it remembers the last gate of the sweep's query.
  A player stands left of gate \<open>(1, 0)\<close>, touching neither gate, and starts a dash in a
  frame of 1/24 s. The move carries the hitbox into gate \<open>(1, 0)\<close> and stops one pixel
  short of gate \<open>(2, 0)\<close>. The adjacent gate \<open>(2, 0)\<close>, which the hitbox does not
  touch, is emptied, and the gate \<open>(1, 0)\<close> in contact stays.
\<close>

theorem dash_contact_gate_survives:
  "player_rect (Player 30 48) = Rect 12 (- 4) 36 52
   \<and> \<not> colliderect (Rect 12 (- 4) 36 52) (tile_rect 1 0)
   \<and> map_option tilemap
        (update_player_part (1 / 24)
           \<lparr>k_space = False, k_lshift = True, k_s = False, k_down = False, k_a = False,
            k_d = False, k_left = False, k_right = False\<rparr>
           \<lparr>tilemap = ['' ||'', ''XXX''],
            player = (Player 30 48)\<lparr>dash_unlocked := True, on_ground := True\<rparr>,
            items = [], coins_got = 0, state = RUN, jp_last = False, sh_last = False,
            cr_last = False\<rparr>)
      = Some ['' | '', ''XXX'']
   \<and> map_option (player_rect \<circ> player)
        (update_player_part (1 / 24)
           \<lparr>k_space = False, k_lshift = True, k_s = False, k_down = False, k_a = False,
            k_d = False, k_left = False, k_right = False\<rparr>
           \<lparr>tilemap = ['' ||'', ''XXX''],
            player = (Player 30 48)\<lparr>dash_unlocked := True, on_ground := True\<rparr>,
            items = [], coins_got = 0, state = RUN, jp_last = False, sh_last = False,
            cr_last = False\<rparr>)
      = Some (Rect 59 (- 4) 36 52)
   \<and> colliderect (Rect 59 (- 4) 36 52) (tile_rect 1 0)
   \<and> \<not> colliderect (Rect 59 (- 4) 36 52) (tile_rect 2 0)"
  by code_simp

section \<open>The controller on a rectangular grid\<close>

lemma can_stand_fits:
  "rect_grid g \<Longrightarrow> can_stand g p = Some (fits g p (h_stand p))"
  by (simp add: can_stand_def fits_at_rect_grid)

lemma resolve_crouch_rect_grid:
  assumes "rect_grid g"
  shows "resolve_crouch k g p =
     Some (if dash_t p \<le> 0 \<and> crouch_held k then
             (if crouch p then p else p\<lparr>ph := h_crouch p, crouch := True\<rparr>)
           else if crouch p \<and> fits g p (h_stand p) then p\<lparr>ph := h_stand p, crouch := False\<rparr>
           else p)"
  by (simp add: resolve_crouch_def set_crouch_def can_stand_fits[OF assms] Let_def)

lemma dash_trigger_rect_grid:
  assumes "rect_grid g"
  shows "dash_trigger k g p =
     Some (if dash_unlocked p \<and> dash_pressed k \<and> dash_cd p \<le> 0 \<and> dash_t p \<le> 0
              \<and> \<not> dash_lock p \<and> \<not> crouch p \<and> fits g p (h_stand p)
           then (start_dash p)\<lparr>dash_lock := True\<rparr> else p)"
  by (simp add: dash_trigger_def can_stand_fits[OF assms])

lemma slide_trigger_cases:
  obtains (fire) d t dir where
      "crouch_pressed k" "\<not> pc" "crouch p" "on_ground p" "ps" "dash_t p \<le> 0"
      "crouch_slide_trigger k pc ps p =
         (if t > 0 then p\<lparr>crouch_slide_decel := d, crouch_slide_t := t, crouch_slide_dir := dir,
                          ph := h_crouch p, crouch := True\<rparr>
          else p\<lparr>crouch_slide_decel := d, crouch_slide_t := t, crouch_slide_dir := dir\<rparr>)"
  | (idle) "crouch_slide_trigger k pc ps p =
         (if crouch_slide_t p > 0 then p\<lparr>ph := h_crouch p, crouch := True\<rparr> else p)"
proof -
  define C where "C = (crouch_pressed k \<and> \<not> pc \<and> crouch p \<and> on_ground p \<and> ps
            \<and> dash_t p \<le> 0 \<and> \<bar>vx p\<bar> \<ge> CROUCH_SLIDE_TRIGGER_SPEED)"
  define d where "d = min CROUCH_SLIDE_DECEL_BASE ((\<bar>vx p\<bar> * \<bar>vx p\<bar>) / (2 * max 1 CROUCH_SLIDE_MIN_DIST))"
  define t where "t = max CROUCH_SLIDE_TIME_BASE (\<bar>vx p\<bar> / max 1 d)"
  define dir :: int where "dir = (if vx p \<ge> 0 then 1 else - 1)"
  define p1 where "p1 = (if C then p\<lparr>crouch_slide_decel := d, crouch_slide_t := t,
                                      crouch_slide_dir := dir\<rparr> else p)"
  have eq: "crouch_slide_trigger k pc ps p =
              (if crouch_slide_t p1 > 0 then p1\<lparr>ph := h_crouch p1, crouch := True\<rparr> else p1)"
    by (simp only: crouch_slide_trigger_def Let_def p1_def C_def d_def t_def dir_def)
  show ?thesis
  proof (cases C)
    case True
    then have p1: "p1 = p\<lparr>crouch_slide_decel := d, crouch_slide_t := t, crouch_slide_dir := dir\<rparr>"
      by (simp only: p1_def if_True)
    have "crouch_slide_trigger k pc ps p =
         (if t > 0 then p\<lparr>crouch_slide_decel := d, crouch_slide_t := t, crouch_slide_dir := dir,
                          ph := h_crouch p, crouch := True\<rparr>
          else p\<lparr>crouch_slide_decel := d, crouch_slide_t := t, crouch_slide_dir := dir\<rparr>)"
      unfolding eq p1 by simp
    with True show ?thesis
      using fire unfolding C_def by blast
  next
    case False
    then have p1: "p1 = p" by (simp only: p1_def if_False)
    show ?thesis using idle unfolding eq p1 by blast
  qed
qed

lemma posture_slide_trigger:
  "posture (crouch_slide_trigger k pc ps p) =
     (if crouch_slide_t (crouch_slide_trigger k pc ps p) > 0
      then (True, h_crouch p, h_stand p, h_crouch p, pw p, form p) else posture p)"
  by (cases rule: slide_trigger_cases[of k pc p ps]) (simp_all add: posture_def)

lemma slide_trigger_prev_crouch:
  "crouch_slide_t (crouch_slide_trigger k True ps p) = crouch_slide_t p"
  by (cases rule: slide_trigger_cases[of k True p ps]) simp_all


lemma control_unfold:
  assumes "rect_grid g"
  obtains p2 p4 where
    "resolve_crouch k g (snd (input_axis k (tick_timers dt p))) = Some p2"
    "dash_trigger k g (crouch_slide_trigger k (crouch (snd (input_axis k (tick_timers dt p))))
                         (sprint (snd (input_axis k (tick_timers dt p)))) p2) = Some p4"
    "\<exists>a b ax. control dt k g p =
       Some ((gravity_jump dt k (clamp_speed (horizontal_accel dt ax
               (skid_trigger a b (sprint_phase k p4)))))\<lparr>on_ground := False\<rparr>)"
proof -
  let ?p1 = "snd (input_axis k (tick_timers dt p))"
  obtain p2 where 2: "resolve_crouch k g ?p1 = Some p2"
    using resolve_crouch_rect_grid[OF assms] by blast
  let ?p3 = "crouch_slide_trigger k (crouch ?p1) (sprint ?p1) p2"
  obtain p4 where 4: "dash_trigger k g ?p3 = Some p4"
    using dash_trigger_rect_grid[OF assms] by blast
  have "\<exists>a b ax. control dt k g p =
       Some ((gravity_jump dt k (clamp_speed (horizontal_accel dt ax
               (skid_trigger a b (sprint_phase k p4)))))\<lparr>on_ground := False\<rparr>)"
    unfolding control_def Let_def case_prod_beta 2 4 bind.bind_lunit
    by blast
  with 2 4 show ?thesis using that by blast
qed

section \<open>The moves on a rectangular grid\<close>

lemma hit_block_frame:
  assumes "rect_grid (tilemap g)"
  shows "\<exists>g'. hit_block tx ty ch g = Some g' \<and> rect_grid (tilemap g')
           \<and> vertical_rest (player g') = vertical_rest (player g)"
  using assms rect_grid_with_cell[OF assms]
  by (simp add: hit_block_closed_form[OF assms] vertical_rest_def)

lemma collide_y_frame:
  assumes "rect_grid (tilemap g)"
  shows "\<exists>g' r'. collide_y step_dy prev t (g, r) = Some (g', r') \<and> rect_grid (tilemap g')
           \<and> vertical_rest (player g') = vertical_rest (player g)"
proof -
  obtain tx ty ch where t: "t = (tx, ty, ch)" by (cases t)
  let ?p1 = "(player g)\<lparr>pos_y := real_of_int (rbottom (tile_rect tx ty) + ph (player g)), vy := 0\<rparr>"
  let ?g1 = "g\<lparr>player := ?p1\<rparr>"
  have rg1: "rect_grid (tilemap ?g1)" using assms by simp
  obtain g2 where g2: "hit_block tx ty ch ?g1 = Some g2" "rect_grid (tilemap g2)"
      "vertical_rest (player g2) = vertical_rest (player ?g1)"
    using hit_block_frame[OF rg1] by blast
  have v1: "vertical_rest ?p1 = vertical_rest (player g)" by (simp add: vertical_rest_def)
  show ?thesis
    using assms g2 v1
    by (auto simp: collide_y_def t Let_def vertical_rest_def)
qed


lemma sweep_y_frame:
  assumes "rect_grid (tilemap g)"
  shows "\<exists>g' r'. sweep_y step_dy prev ts (g, r) = Some (g', r') \<and> rect_grid (tilemap g')
           \<and> vertical_rest (player g') = vertical_rest (player g)"
  using assms
proof (induction ts arbitrary: g r)
  case Nil
  then show ?case by simp
next
  case (Cons t ts)
  obtain g1 r1 where 1: "collide_y step_dy prev t (g, r) = Some (g1, r1)"
      "rect_grid (tilemap g1)" "vertical_rest (player g1) = vertical_rest (player g)"
    using collide_y_frame[OF Cons.prems] by blast
  obtain g2 r2 where 2: "sweep_y step_dy prev ts (g1, r1) = Some (g2, r2)"
      "rect_grid (tilemap g2)" "vertical_rest (player g2) = vertical_rest (player g1)"
    using Cons.IH[OF 1(2)] by blast
  show ?case using 1 2 by simp
qed

lemma substep_y_frame:
  assumes "rect_grid (tilemap g)"
  shows "\<exists>g'. substep_y step_dy g = Some g' \<and> rect_grid (tilemap g')
           \<and> vertical_rest (player g') = vertical_rest (player g)"
proof -
  let ?p1 = "(player g)\<lparr>pos_y := pos_y (player g) + step_dy\<rparr>"
  let ?g1 = "g\<lparr>player := ?p1\<rparr>"
  have rg1: "rect_grid (tilemap ?g1)" using assms by simp
  have v1: "vertical_rest ?p1 = vertical_rest (player g)" by (simp add: vertical_rest_def)
  obtain g2 r2 where 2: "sweep_y step_dy (player_rect (player g))
        (tiles_list (tilemap g) (inflate (player_rect ?p1) (- 8) 0)) (?g1, player_rect ?p1)
        = Some (g2, r2)"
      "rect_grid (tilemap g2)" "vertical_rest (player g2) = vertical_rest (player ?g1)"
    using sweep_y_frame[OF rg1] by blast
  show ?thesis
    using 2 v1 by (simp add: substep_y_def tiles_in_aabb_rect_grid[OF assms] Let_def)
qed

lemma substeps_frame:
  assumes "rect_grid (tilemap g)"
  shows "\<exists>g'. substeps n step_dy g = Some g' \<and> rect_grid (tilemap g')
           \<and> vertical_rest (player g') = vertical_rest (player g)"
  using assms
proof (induction n arbitrary: g)
  case 0
  then show ?case by simp
next
  case (Suc n)
  obtain g1 where 1: "substep_y step_dy g = Some g1" "rect_grid (tilemap g1)"
      "vertical_rest (player g1) = vertical_rest (player g)"
    using substep_y_frame[OF Suc.prems] by blast
  obtain g2 where 2: "substeps n step_dy g1 = Some g2" "rect_grid (tilemap g2)"
      "vertical_rest (player g2) = vertical_rest (player g1)"
    using Suc.IH[OF 1(2)] by blast
  show ?case using 1 2 by simp
qed

lemma move_vertical_frame:
  assumes "rect_grid (tilemap g)"
  shows "\<exists>g'. move_vertical dt g = Some g' \<and> rect_grid (tilemap g')
           \<and> vertical_rest (player g') = vertical_rest (player g)"
  unfolding move_vertical_def Let_def by (rule substeps_frame[OF assms])

lemma horizontal_rest_block_x [simp]:
  "horizontal_rest (block_x r tx ty p) = horizontal_rest p"
  by (simp add: horizontal_rest_def block_x_def Let_def)

lemma horizontal_rest_sweep_x:
  "horizontal_rest (fst (sweep_x r ts (p, cg))) = horizontal_rest p"
proof (induction ts arbitrary: p cg)
  case Nil
  then show ?case by simp
next
  case (Cons t ts)
  obtain tx ty ch where t: "t = (tx, ty, ch)" by (cases t)
  show ?case
    by (simp add: t Let_def Cons.IH split: prod.splits)
qed

lemma sweep_x_gate_in_list:
  "snd (sweep_x r ts (p, cg)) = Some (gx, gy) \<Longrightarrow>
     cg = Some (gx, gy) \<or> (gx, gy, CHR ''|'') \<in> set ts"
proof (induction ts arbitrary: p cg)
  case Nil
  then show ?case by simp
next
  case (Cons t ts)
  obtain tx ty ch where t: "t = (tx, ty, ch)" by (cases t)
  show ?case
  proof (cases "ch = CHR ''|'' \<and> dash_t p > 0")
    case True
    then have "sweep_x r (t # ts) (p, cg) = sweep_x r ts (p, Some (tx, ty))"
      by (simp add: t solid_def)
    with Cons.prems have "snd (sweep_x r ts (p, Some (tx, ty))) = Some (gx, gy)" by simp
    from Cons.IH[OF this] True show ?thesis by (auto simp: t)
  next
    case False
    have "\<exists>p'. sweep_x r (t # ts) (p, cg) = sweep_x r ts (p', cg)"
    proof (cases "ch = CHR ''|''")
      case True
      with False have "sweep_x r (t # ts) (p, cg)
          = sweep_x r ts (if solid ch then block_x r tx ty (block_x r tx ty p)
                          else block_x r tx ty p, cg)"
        by (simp add: t)
      then show ?thesis by blast
    next
      case False
      then have "sweep_x r (t # ts) (p, cg)
          = sweep_x r ts (if solid ch then block_x r tx ty p else p, cg)"
        by (simp add: t)
      then show ?thesis by blast
    qed
    then obtain p' where "sweep_x r (t # ts) (p, cg) = sweep_x r ts (p', cg)" by blast
    with Cons.prems have "snd (sweep_x r ts (p', cg)) = Some (gx, gy)" by simp
    from Cons.IH[OF this] show ?thesis by auto
  qed
qed

lemma move_horizontal_frame:
  assumes "rect_grid (tilemap g)"
  shows "\<exists>g'. move_horizontal dt g = Some g' \<and> rect_grid (tilemap g')
           \<and> horizontal_rest (player g') = horizontal_rest (player g)"
proof -
  let ?p1 = "(player g)\<lparr>pos_x := pos_x (player g) + vx (player g) * dt\<rparr>"
  let ?s = "sweep_x (player_rect ?p1) (tiles_list (tilemap g) (sweep_query dt (player g))) (?p1, None)"
  have h: "horizontal_rest (fst ?s) = horizontal_rest (player g)"
    by (simp add: horizontal_rest_sweep_x) (simp add: horizontal_rest_def)
  show ?thesis
  proof (cases "snd ?s")
    case None
    then show ?thesis
      using h assms by (simp add: move_horizontal_rect_grid[OF assms] Let_def)
  next
    case (Some c)
    obtain gx gy where c: "c = (gx, gy)" by (cases c)
    have "(gx, gy, CHR ''|'') \<in> set (tiles_list (tilemap g) (sweep_query dt (player g)))"
      using sweep_x_gate_in_list[of "player_rect ?p1" _ ?p1 None gx gy] Some c by simp
    then have ig: "in_grid (tilemap g) gx gy" by (simp add: set_tiles_list)
    let ?g1 = "g\<lparr>player := fst ?s\<rparr>"
    have rg1: "rect_grid (tilemap ?g1)" "in_grid (tilemap ?g1) gx gy" using assms ig by simp_all
    show ?thesis
      using h assms rect_grid_with_cell[OF assms] destroy_gate_in_grid[OF rg1]
      by (simp add: move_horizontal_rect_grid[OF assms] Let_def Some c)
  qed
qed

lemma posture_vertical_rest: "posture (vertical_rest p) = posture p"
  by (simp add: posture_def vertical_rest_def)

lemma posture_horizontal_rest: "posture (horizontal_rest p) = posture p"
  by (simp add: posture_def horizontal_rest_def)

lemma posture_of_vertical_rest:
  "vertical_rest p' = vertical_rest p \<Longrightarrow> posture p' = posture p"
proof -
  assume "vertical_rest p' = vertical_rest p"
  then have "posture (vertical_rest p') = posture (vertical_rest p)" by (rule arg_cong)
  then show ?thesis by (simp only: posture_vertical_rest)
qed

lemma posture_of_horizontal_rest:
  "horizontal_rest p' = horizontal_rest p \<Longrightarrow> posture p' = posture p"
proof -
  assume "horizontal_rest p' = horizontal_rest p"
  then have "posture (horizontal_rest p') = posture (horizontal_rest p)" by (rule arg_cong)
  then show ?thesis by (simp only: posture_horizontal_rest)
qed

lemma Player_update_total:
  assumes "rect_grid (tilemap g)"
  shows "\<exists>p g'. control dt k (tilemap g) (player g) = Some p
            \<and> Player_update dt k g = Some g' \<and> rect_grid (tilemap g')
            \<and> posture (player g') = posture p"
proof -
  obtain p where p: "control dt k (tilemap g) (player g) = Some p"
    by (rule control_unfold[OF assms, of k dt "player g"]) blast
  have rg0: "rect_grid (tilemap (g\<lparr>player := p\<rparr>))" using assms by simp
  obtain g1 where 1: "move_horizontal dt (g\<lparr>player := p\<rparr>) = Some g1" "rect_grid (tilemap g1)"
      "horizontal_rest (player g1) = horizontal_rest (player (g\<lparr>player := p\<rparr>))"
    using move_horizontal_frame[OF rg0] by blast
  obtain g2 where 2: "move_vertical dt g1 = Some g2" "rect_grid (tilemap g2)"
      "vertical_rest (player g2) = vertical_rest (player g1)"
    using move_vertical_frame[OF 1(2)] by blast
  have "posture (player g1) = posture p"
    using posture_of_horizontal_rest[OF 1(3)] by simp
  moreover have "posture (player g2) = posture (player g1)"
    by (rule posture_of_vertical_rest[OF 2(3)])
  ultimately have "posture (tilt dt (player g2)) = posture p" by simp
  then show ?thesis
    using p 1 2 by (simp add: Player_update_def)
qed

section \<open>Crouching\<close>

lemma fits_same_place:
  "pos_x p' = pos_x p \<Longrightarrow> pos_y p' = pos_y p \<Longrightarrow> pw p' = pw p \<Longrightarrow>
     fits g p' hgt = fits g p hgt"
  by (simp add: fits_def fits_at_def hitbox_def)

lemma input_axis_fields [simp]:
  "pos_x (snd (input_axis k p)) = pos_x p" "pos_y (snd (input_axis k p)) = pos_y p"
  "dash_t (snd (input_axis k p)) = dash_t p"
  "crouch_slide_t (snd (input_axis k p)) = crouch_slide_t p"
  "crouch (snd (input_axis k p)) = crouch p" "h_stand (snd (input_axis k p)) = h_stand p"
  "pw (snd (input_axis k p)) = pw p" "ph (snd (input_axis k p)) = ph p"
  by (simp_all add: input_axis_def Let_def)

lemma tick_timers_fields [simp]:
  "pos_x (tick_timers dt p) = pos_x p" "pos_y (tick_timers dt p) = pos_y p"
  "crouch (tick_timers dt p) = crouch p" "h_stand (tick_timers dt p) = h_stand p"
  "pw (tick_timers dt p) = pw p" "ph (tick_timers dt p) = ph p"
  by (simp_all add: tick_timers_def)

lemma posture_dash_trigger:
  assumes "dash_trigger k g p = Some p'"
  shows "posture p' = posture p"
proof -
  have "p' = p \<or> p' = (start_dash p)\<lparr>dash_lock := True\<rparr>"
    using assms by (auto simp: dash_trigger_def split: if_splits bind_splits)
  then show ?thesis
    using posture_start_dash[of p] by (auto simp: posture_def)
qed

lemma control_crouching:
  assumes "rect_grid g" "crouch p"
  shows "\<exists>p'. control dt k g p = Some p'
     \<and> (crouch p' \<longleftrightarrow> crouch_requested dt k p \<or> \<not> fits g p (h_stand p) \<or> slide_running dt p)
     \<and> (\<not> crouch p' \<longrightarrow> ph p' = h_stand p)"
proof -
  let ?p1 = "snd (input_axis k (tick_timers dt p))"
  obtain p2 p4 where 2: "resolve_crouch k g ?p1 = Some p2"
    and 4: "dash_trigger k g (crouch_slide_trigger k (crouch ?p1) (sprint ?p1) p2) = Some p4"
    and c: "\<exists>a b ax. control dt k g p =
       Some ((gravity_jump dt k (clamp_speed (horizontal_accel dt ax
               (skid_trigger a b (sprint_phase k p4)))))\<lparr>on_ground := False\<rparr>)"
    by (rule control_unfold[OF assms(1), of k dt p]) blast
  let ?p3 = "crouch_slide_trigger k (crouch ?p1) (sprint ?p1) p2"
  from c obtain a b ax where c': "control dt k g p =
       Some ((gravity_jump dt k (clamp_speed (horizontal_accel dt ax
               (skid_trigger a b (sprint_phase k p4)))))\<lparr>on_ground := False\<rparr>)"
    by blast
  let ?p' = "(gravity_jump dt k (clamp_speed (horizontal_accel dt ax
               (skid_trigger a b (sprint_phase k p4)))))\<lparr>on_ground := False\<rparr>"
  have "posture ?p' = posture (gravity_jump dt k (clamp_speed (horizontal_accel dt ax
               (skid_trigger a b (sprint_phase k p4)))))"
    by (simp add: posture_def)
  then have post: "posture ?p' = posture ?p3"
    using posture_dash_trigger[OF 4] by simp
  have c1: "crouch ?p1" using assms(2) by simp
  have f: "fits g ?p1 (h_stand ?p1) = fits g p (h_stand p)"
    using fits_same_place[of ?p1 p g "h_stand p"] by simp
  have req: "(dash_t ?p1 \<le> 0 \<and> crouch_held k) = crouch_requested dt k p"
    by (simp add: crouch_requested_def)
  have p2: "p2 = (if crouch_requested dt k p \<or> \<not> fits g p (h_stand p) then ?p1
                  else ?p1\<lparr>ph := h_stand ?p1, crouch := False\<rparr>)"
    using 2 c1 unfolding resolve_crouch_rect_grid[OF assms(1)] f req by auto
  have st: "crouch_slide_t p2 = crouch_slide_t (tick_timers dt p)"
    unfolding p2 by simp
  have p3: "?p3 = (if crouch_slide_t p2 > 0 then p2\<lparr>ph := h_crouch p2, crouch := True\<rparr> else p2)"
    using c1 by (cases rule: slide_trigger_cases[of k "crouch ?p1" p2 "sprint ?p1"]) simp_all
  have "crouch ?p3 \<longleftrightarrow> crouch_requested dt k p \<or> \<not> fits g p (h_stand p) \<or> slide_running dt p"
    unfolding p3 st slide_running_def unfolding p2 using c1 by auto
  moreover have "\<not> crouch ?p3 \<longrightarrow> ph ?p3 = h_stand p"
    unfolding p3 st unfolding p2 using c1 by auto
  moreover have "crouch ?p' = crouch ?p3" "ph ?p' = ph ?p3"
    using post by (simp_all add: posture_def)
  ultimately show ?thesis using c' by simp
qed

text \<open>
  C5 (amended). On a rectangular grid, a frame that starts with the player crouching
  always returns, and it ends with the crouch cleared exactly when the crouch is not
  requested, no crouch-slide runs, and no solid, spike, gate or goal tile overlaps the
  core of the standing-height hitbox (the hitbox without its four left, three right
  and one top pixel lines); the hitbox then has its standing height. So while a
  blocking tile overlaps the core at the start of a frame, the crouch is still set at
  its end. A standing hitbox that overlaps no blocking tile at all has a clear core;
  an overlap confined to the margins does not keep the player down.
\<close>

theorem crouch_cleared_iff_core_clear:
  assumes "rect_grid (tilemap g)" "crouch (player g)"
    "8 \<le> pw (player g)" "2 \<le> h_stand (player g)"
  shows "\<exists>g'. Player_update dt k g = Some g'
     \<and> (crouch (player g') \<longleftrightarrow>
           crouch_requested dt k (player g) \<or> stand_blocked (tilemap g) (player g)
           \<or> slide_running dt (player g))
     \<and> (\<not> crouch (player g') \<longrightarrow> ph (player g') = h_stand (player g))
     \<and> (\<not> hits_blocking (tilemap g) (hitbox (player g) (h_stand (player g)))
          \<longrightarrow> \<not> stand_blocked (tilemap g) (player g))"
proof -
  obtain p g' where p: "control dt k (tilemap g) (player g) = Some p"
    and g': "Player_update dt k g = Some g'" and post: "posture (player g') = posture p"
    using Player_update_total[OF assms(1), of dt k] by blast
  have eq: "crouch (player g') = crouch p" "ph (player g') = ph p"
    using post by (simp_all add: posture_def)
  have blocked: "stand_blocked (tilemap g) (player g)
                 \<longleftrightarrow> \<not> fits (tilemap g) (player g) (h_stand (player g))"
    using fits_iff_core_clear[OF assms(1,3,4)] by (simp add: stand_blocked_def)
  have sz: "8 \<le> rwidth (hitbox (player g) (h_stand (player g)))"
           "2 \<le> rheight (hitbox (player g) (h_stand (player g)))"
    using assms(3,4) by (simp_all add: hitbox_def Rect_def)
  have margin: "\<not> hits_blocking (tilemap g) (hitbox (player g) (h_stand (player g)))
          \<longrightarrow> \<not> stand_blocked (tilemap g) (player g)"
    using core_inside[OF sz] unfolding stand_blocked_def by blast
  show ?thesis
    using control_crouching[OF assms(1,2), of dt k] p g' eq blocked margin by auto
qed

theorem crouch_cleared_iff_core_clear_witness:
  "rect_grid ['' X '', ''   '', ''XXX'']
   \<and> stand_blocked ['' X '', ''   '', ''XXX''] ((Player 72 96)\<lparr>crouch := True, ph := H_CROUCH\<rparr>)
   \<and> (\<exists>g'. Player_update (1 / 64)
              \<lparr>key_a = False, key_d = False, key_left = False, key_right = False,
               shift_held = False, dash_pressed = False, jump_pressed = False,
               jump_released = False, crouch_held = False, crouch_pressed = False\<rparr>
              \<lparr>tilemap = ['' X '', ''   '', ''XXX''],
               player = (Player 72 96)\<lparr>crouch := True, ph := H_CROUCH\<rparr>,
               items = [], coins_got = 0, state = RUN, jp_last = False, sh_last = False,
               cr_last = False\<rparr> = Some g'
          \<and> crouch (player g'))"
proof -
  let ?tm = "['' X '', ''   '', ''XXX'']"
  let ?p = "(Player 72 96)\<lparr>crouch := True, ph := H_CROUCH\<rparr>"
  let ?g = "\<lparr>tilemap = ?tm, player = ?p, items = [], coins_got = 0, state = RUN,
             jp_last = False, sh_last = False, cr_last = False\<rparr>"
  have h1: "rect_grid (tilemap ?g)" by (simp add: rect_grid_def)
  have h2: "crouch (player ?g)" by simp
  have h3: "8 \<le> pw (player ?g)" by (simp add: Player_def)
  have h4: "2 \<le> h_stand (player ?g)" by (simp add: Player_def H_STAND_def)
  have "in_grid ?tm 1 0 \<and> blocks_stand (cell ?tm 1 0)
        \<and> colliderect (core (hitbox ?p (h_stand ?p))) (tile_rect 1 0)"
    by code_simp
  then have b: "stand_blocked ?tm ?p"
    unfolding stand_blocked_def hits_blocking_def by blast
  from crouch_cleared_iff_core_clear[OF h1 h2 h3 h4, of "1 / 64"] b h1
  show ?thesis by auto
qed

text \<open>
  C5 as stated fails: a crouching small player stands under the edge of a platform,
  three pixel columns of his standing hitbox inside the platform tile \<open>(1, 0)\<close>. With
  the crouch key released the frame stands him up, into the tile.
\<close>

theorem uncrouch_into_overlap:
  "crouch ((Player 111 96)\<lparr>crouch := True, ph := H_CROUCH, on_ground := True\<rparr>)
   \<and> hitbox ((Player 111 96)\<lparr>crouch := True, ph := H_CROUCH, on_ground := True\<rparr>) H_STAND
       = Rect 93 44 36 52
   \<and> colliderect (Rect 93 44 36 52) (tile_rect 1 0)
   \<and> cell ['' X '', ''   '', ''XXX''] 1 0 = CHR ''X'' \<and> solid CHR ''X''
   \<and> map_option (crouch \<circ> player)
        (Player_update (1 / 64)
           \<lparr>key_a = False, key_d = False, key_left = False, key_right = False,
            shift_held = False, dash_pressed = False, jump_pressed = False,
            jump_released = False, crouch_held = False, crouch_pressed = False\<rparr>
           \<lparr>tilemap = ['' X '', ''   '', ''XXX''],
            player = (Player 111 96)\<lparr>crouch := True, ph := H_CROUCH, on_ground := True\<rparr>,
            items = [], coins_got = 0, state = RUN, jp_last = False, sh_last = False,
            cr_last = False\<rparr>)
      = Some False
   \<and> map_option (player_rect \<circ> player)
        (Player_update (1 / 64)
           \<lparr>key_a = False, key_d = False, key_left = False, key_right = False,
            shift_held = False, dash_pressed = False, jump_pressed = False,
            jump_released = False, crouch_held = False, crouch_pressed = False\<rparr>
           \<lparr>tilemap = ['' X '', ''   '', ''XXX''],
            player = (Player 111 96)\<lparr>crouch := True, ph := H_CROUCH, on_ground := True\<rparr>,
            items = [], coins_got = 0, state = RUN, jp_last = False, sh_last = False,
            cr_last = False\<rparr>)
      = Some (Rect 93 44 36 52)"
  by code_simp

section \<open>The dash\<close>

lemma dash_cd_phases [simp]:
  "dash_cd (snd (input_axis k p)) = dash_cd p"
  "dash_cd (sprint_phase k p) = dash_cd p"
  "dash_cd (skid_trigger a b p) = dash_cd p"
  "dash_cd (horizontal_accel dt ax p) = dash_cd p"
  "dash_cd (clamp_speed p) = dash_cd p"
  "dash_cd (gravity_jump dt k p) = dash_cd p"
  by (simp_all add: input_axis_def sprint_phase_def skid_trigger_def horizontal_accel_def
      add_trail_def clamp_speed_def gravity_jump_def Let_def)

lemma dash_cd_slide_trigger [simp]:
  "dash_cd (crouch_slide_trigger k pc ps p) = dash_cd p"
  by (cases rule: slide_trigger_cases[of k pc p ps]) simp_all






section \<open>Pickups\<close>

lemma set_form_total:
  assumes "rect_grid g"
  shows "\<exists>ok p'. set_form f (Some g) p = Some (ok, p')"
  by (auto simp: set_form_def rect_fits_rect_grid[OF assms] Let_def)

lemma collect_powerup_total:
  assumes "rect_grid g"
  shows "\<exists>grew p'. collect_powerup kind g p = Some (grew, p')"
proof -
  obtain ok p' where "set_form Big (Some g) p = Some (ok, p')"
    using set_form_total[OF assms] by blast
  then show ?thesis by (auto simp: collect_powerup_def)
qed

lemma take_damage_total:
  assumes "rect_grid g"
  shows "\<exists>lethal p'. take_damage g p = Some (lethal, p')"
proof -
  obtain ok p' where "set_form Small (Some g) p = Some (ok, p')"
    using set_form_total[OF assms] by blast
  then show ?thesis by (auto simp: take_damage_def)
qed

lemma collect_powerup_cannot_grow:
  assumes "rect_grid g" "cannot_grow g p"
  shows "collect_powerup ''mushroom'' g p = Some (False, p)"
  using assms(2)
  by (simp add: collect_powerup_def set_form_def rect_fits_rect_grid[OF assms(1)]
      cannot_grow_def)

lemma in_grid_with_cell:
  assumes "rect_grid g"
  shows "in_grid (with_cell g tx ty c) tx' ty' = in_grid g tx' ty'"
  by (simp add: in_grid_def grid_dims_with_cell(1) grid_dims_with_cell(2)[OF assms])


lemma scan_loop_blanks:
  assumes "rect_grid (tilemap g)" "\<forall>t \<in> set ts. in_grid (tilemap g) (fst t) (fst (snd t))"
  shows "\<exists>g'. scan_loop r ts g = Some g' \<and> rect_grid (tilemap g')
          \<and> (\<forall>tx ty. in_grid (tilemap g') tx ty = in_grid (tilemap g) tx ty)
          \<and> (\<forall>tx ty. in_grid (tilemap g) tx ty \<and> cell (tilemap g) tx ty = CHR '' ''
                \<longrightarrow> cell (tilemap g') tx ty = CHR '' '')
          \<and> (\<forall>tx ty. (tx, ty, CHR ''M'') \<in> set (reached r ts)
                \<longrightarrow> cell (tilemap g') tx ty = CHR '' '')"
  using assms
proof (induction ts arbitrary: g)
  case Nil
  then show ?case by (simp add: reached_def)
next
  case (Cons t ts)
  obtain tx ty ch where t: "t = (tx, ty, ch)" by (cases t)
  let ?tm = "tilemap g"
  have ig: "in_grid ?tm tx ty" using Cons.prems(2) by (simp add: t)
  have nn: "0 \<le> tx" "0 \<le> ty" using ig by (simp_all add: in_grid_def)
  have rest: "\<forall>t \<in> set ts. in_grid ?tm (fst t) (fst (snd t))"
    using Cons.prems(2) by simp
  let ?blank = "with_cell ?tm tx ty CHR '' ''"
  have gs: "grid_set ?tm tx ty CHR '' '' = Some ?blank"
    by (rule grid_set_in_grid[OF Cons.prems(1) ig])
  have rgb: "rect_grid ?blank" by (rule rect_grid_with_cell[OF Cons.prems(1)])
  have igb: "in_grid ?blank a b = in_grid ?tm a b" for a b
    by (rule in_grid_with_cell[OF Cons.prems(1)])
  have cb: "cell ?blank a b = (if a = tx \<and> b = ty then CHR '' '' else cell ?tm a b)"
    if "in_grid ?tm a b" for a b
  proof -
    from that have "0 \<le> a" "0 \<le> b" by (simp_all add: in_grid_def)
    from cell_with_cell[OF Cons.prems(1) ig this] show ?thesis .
  qed
  text \<open>the step that blanks the tile and goes on\<close>
  have blanking: ?case
    if step: "scan_loop r (t # ts) g = scan_loop r ts g1" and tm1: "tilemap g1 = ?blank"
      and ngc: "\<not> goal_contact r t" for g1
  proof -
    have rg1: "rect_grid (tilemap g1)" using rgb tm1 by simp
    have rest1: "\<forall>t \<in> set ts. in_grid (tilemap g1) (fst t) (fst (snd t))"
      using rest igb tm1 by simp
    from Cons.IH[OF rg1 rest1] obtain g' where g': "scan_loop r ts g1 = Some g'"
      "rect_grid (tilemap g')"
      "\<forall>a b. in_grid (tilemap g') a b = in_grid (tilemap g1) a b"
      "\<forall>a b. in_grid (tilemap g1) a b \<and> cell (tilemap g1) a b = CHR '' ''
                \<longrightarrow> cell (tilemap g') a b = CHR '' ''"
      "\<forall>a b. (a, b, CHR ''M'') \<in> set (reached r ts) \<longrightarrow> cell (tilemap g') a b = CHR '' ''"
      by blast
    have here: "cell (tilemap g') tx ty = CHR '' ''"
      using g'(4) ig igb cb[OF ig] tm1 by simp
    have keep: "cell (tilemap g') a b = CHR '' ''"
      if "in_grid ?tm a b" "cell ?tm a b = CHR '' ''" for a b
      using g'(4) that igb cb[OF that(1)] tm1 by simp
    have r: "reached r (t # ts) = t # reached r ts" using ngc by (simp add: reached_def)
    show ?thesis
      using g' here keep igb tm1 unfolding step r by (auto simp: t)
  qed
  text \<open>the step that leaves the grid alone and goes on\<close>
  have passing: ?case
    if step: "scan_loop r (t # ts) g = scan_loop r ts g1" and tm1: "tilemap g1 = ?tm"
      and ngc: "\<not> goal_contact r t" and nm: "ch \<noteq> CHR ''M''" for g1
  proof -
    have rg1: "rect_grid (tilemap g1)" using Cons.prems(1) tm1 by simp
    have rest1: "\<forall>t \<in> set ts. in_grid (tilemap g1) (fst t) (fst (snd t))"
      using rest tm1 by simp
    from Cons.IH[OF rg1 rest1] obtain g' where g': "scan_loop r ts g1 = Some g'"
      "rect_grid (tilemap g')"
      "\<forall>a b. in_grid (tilemap g') a b = in_grid (tilemap g1) a b"
      "\<forall>a b. in_grid (tilemap g1) a b \<and> cell (tilemap g1) a b = CHR '' ''
                \<longrightarrow> cell (tilemap g') a b = CHR '' ''"
      "\<forall>a b. (a, b, CHR ''M'') \<in> set (reached r ts) \<longrightarrow> cell (tilemap g') a b = CHR '' ''"
      by blast
    have r: "reached r (t # ts) = t # reached r ts" using ngc by (simp add: reached_def)
    show ?thesis
      using g' tm1 nm unfolding step r by (auto simp: t)
  qed
  consider (C) "ch = CHR ''C''" | (D) "ch = CHR ''D''" | (M) "ch = CHR ''M''"
    | (spike) "ch = CHR ''^''" | (goal) "ch = CHR ''F''"
    | (other) "ch \<notin> {CHR ''C'', CHR ''D'', CHR ''M'', CHR ''^'', CHR ''F''}"
    by blast
  then show ?case
  proof cases
    case C
    show ?thesis
      by (rule blanking[of "g\<lparr>tilemap := ?blank, coins_got := coins_got g + 1,
                            player := (player g)\<lparr>coins := coins (player g) + 1\<rparr>\<rparr>"])
         (simp_all add: t C gs goal_contact_def)
  next
    case D
    show ?thesis
      by (rule blanking[of "g\<lparr>tilemap := ?blank,
                            player := (player g)\<lparr>dash_unlocked := True\<rparr>\<rparr>"])
         (simp_all add: t D gs goal_contact_def)
  next
    case M
    obtain grew p1 where cp: "collect_powerup ''mushroom'' ?tm (player g) = Some (grew, p1)"
      using collect_powerup_total[OF Cons.prems(1)] by blast
    show ?thesis
      by (rule blanking[of "g\<lparr>player := p1, tilemap := ?blank\<rparr>"])
         (simp_all add: t M gs cp goal_contact_def)
  next
    case spike
    show ?thesis
    proof (cases "colliderect r (tile_rect tx ty)")
      case True
      obtain lethal p1 where td: "take_damage ?tm (player g) = Some (lethal, p1)"
        using take_damage_total[OF Cons.prems(1)] by blast
      show ?thesis
        by (rule passing[of "g\<lparr>player := p1, state := (if lethal then DEAD else state g)\<rparr>"])
           (simp_all add: t spike td True goal_contact_def)
    next
      case False
      show ?thesis
        by (rule passing[of g]) (simp_all add: t spike False goal_contact_def)
    qed
  next
    case goal
    show ?thesis
    proof (cases "colliderect r (tile_rect tx ty)")
      case True
      have "scan_loop r (t # ts) g = Some (g\<lparr>state := WIN\<rparr>)"
        by (simp add: t goal True)
      moreover have "reached r (t # ts) = []"
        by (simp add: reached_def goal_contact_def t goal True)
      ultimately show ?thesis using Cons.prems(1) by simp
    next
      case False
      show ?thesis
        by (rule passing[of g]) (simp_all add: t goal False goal_contact_def)
    qed
  next
    case other
    show ?thesis
      by (rule passing[of g]) (use other in \<open>simp_all add: t goal_contact_def\<close>)
  qed
qed

lemma pickup_loop_result:
  assumes "rect_grid tm"
  shows "\<exists>is1 p1. pickup_loop pr tm its p = Some (is1, p1)
           \<and> filter (\<lambda>i. \<not> remove i) is1 = filter (\<lambda>i. \<not> remove i \<and> \<not> touched pr i) its
           \<and> (cannot_grow tm p \<longrightarrow> p1 = p)"
proof (induction its arbitrary: p)
  case Nil
  then show ?case by simp
next
  case (Cons i its)
  show ?case
  proof (cases "touched pr i")
    case True
    obtain grew p1 where cp: "collect_powerup ''mushroom'' tm p = Some (grew, p1)"
      using collect_powerup_total[OF assms] by blast
    have same: "cannot_grow tm p \<longrightarrow> p1 = p"
      using collect_powerup_cannot_grow[OF assms, of p] cp by auto
    from Cons.IH[of p1] obtain is1 p2 where r: "pickup_loop pr tm its p1 = Some (is1, p2)"
      "filter (\<lambda>i. \<not> remove i) is1 = filter (\<lambda>i. \<not> remove i \<and> \<not> touched pr i) its"
      "cannot_grow tm p1 \<longrightarrow> p2 = p1"
      by blast
    have "pickup_loop pr tm (i # its) p = Some (i\<lparr>remove := True\<rparr> # is1, p2)"
      using True cp r(1) by (simp add: touched_def)
    then show ?thesis using True r(2,3) same by auto
  next
    case False
    from Cons.IH[of p] obtain is1 p1 where r: "pickup_loop pr tm its p = Some (is1, p1)"
      "filter (\<lambda>i. \<not> remove i) is1 = filter (\<lambda>i. \<not> remove i \<and> \<not> touched pr i) its"
      "cannot_grow tm p \<longrightarrow> p1 = p"
      by blast
    have "pickup_loop pr tm (i # its) p = Some (i # is1, p1)"
      using False r(1) by (auto simp: touched_def)
    then show ?thesis using False r(2,3) by auto
  qed
qed

text \<open>
  C10 (amended). On a rectangular grid the tile scan and the item pickup always
  return. After the scan every mushroom tile the scan reached, that is every mushroom
  tile of its query that no goal tile in contact with the player precedes, is empty;
  after the pickup the item list holds exactly the items that were neither marked
  before nor active and in contact with the player. This does not depend on whether
  the player grows. When the player is small and neither big hitbox fits, the power-up
  is refused and the player is unchanged: a mushroom tile visited in that state is
  rewritten to empty and nothing else changes, and the item pickup leaves the player
  as he was.
\<close>

theorem mushroom_consumed_even_when_growth_fails:
  assumes "rect_grid (tilemap g)"
  shows "(\<exists>g'. scan_tiles g = Some g'
            \<and> (\<forall>tx ty. (tx, ty, CHR ''M'') \<in> set (reached (player_rect (player g)) (scan_list g))
                  \<longrightarrow> cell (tilemap g') tx ty = CHR '' ''))
       \<and> (\<exists>g'. pickup_items g = Some g'
            \<and> items g' = filter (\<lambda>i. \<not> remove i \<and> \<not> touched (player_rect (player g)) i) (items g)
            \<and> (cannot_grow (tilemap g) (player g) \<longrightarrow> player g' = player g))
       \<and> (cannot_grow (tilemap g) (player g) \<longrightarrow>
            collect_powerup ''mushroom'' (tilemap g) (player g) = Some (False, player g)
          \<and> (\<forall>r tx ty ts. in_grid (tilemap g) tx ty \<longrightarrow>
                scan_loop r ((tx, ty, CHR ''M'') # ts) g
                = scan_loop r ts (g\<lparr>tilemap := with_cell (tilemap g) tx ty CHR '' ''\<rparr>)))"
proof -
  have inb: "\<forall>t \<in> set (scan_list g). in_grid (tilemap g) (fst t) (fst (snd t))"
    by (auto simp: scan_list_def set_tiles_list)
  from scan_loop_blanks[OF assms inb, of "player_rect (player g)"]
  have scan: "\<exists>g'. scan_tiles g = Some g'
            \<and> (\<forall>tx ty. (tx, ty, CHR ''M'') \<in> set (reached (player_rect (player g)) (scan_list g))
                  \<longrightarrow> cell (tilemap g') tx ty = CHR '' '')"
    by (auto simp: scan_tiles_def scan_list_def tiles_in_aabb_rect_grid[OF assms])
  from pickup_loop_result[OF assms, of "player_rect (player g)" "items g" "player g"]
  have pick: "\<exists>g'. pickup_items g = Some g'
            \<and> items g' = filter (\<lambda>i. \<not> remove i \<and> \<not> touched (player_rect (player g)) i) (items g)
            \<and> (cannot_grow (tilemap g) (player g) \<longrightarrow> player g' = player g)"
    by (auto simp: pickup_items_def)
  have fail: "collect_powerup ''mushroom'' (tilemap g) (player g) = Some (False, player g)
          \<and> (\<forall>r tx ty ts. in_grid (tilemap g) tx ty \<longrightarrow>
                scan_loop r ((tx, ty, CHR ''M'') # ts) g
                = scan_loop r ts (g\<lparr>tilemap := with_cell (tilemap g) tx ty CHR '' ''\<rparr>))"
    if cg: "cannot_grow (tilemap g) (player g)"
  proof -
    have cp: "collect_powerup ''mushroom'' (tilemap g) (player g) = Some (False, player g)"
      by (rule collect_powerup_cannot_grow[OF assms cg])
    have "scan_loop r ((tx, ty, CHR ''M'') # ts) g
                = scan_loop r ts (g\<lparr>tilemap := with_cell (tilemap g) tx ty CHR '' ''\<rparr>)"
      if "in_grid (tilemap g) tx ty" for r tx ty ts
      by (simp add: cp grid_set_in_grid[OF assms that])
    with cp show ?thesis by blast
  qed
  show ?thesis using scan pick fail by blast
qed

theorem mushroom_consumed_even_when_growth_fails_witness:
  "rect_grid [''   '', '' ^M'', ''XXX'']
   \<and> cannot_grow [''   '', '' ^M'', ''XXX''] ((Player 76 96)\<lparr>inv_t := 1\<rparr>)
   \<and> scan_tiles \<lparr>tilemap = [''   '', '' ^M'', ''XXX''],
                  player = (Player 76 96)\<lparr>inv_t := 1\<rparr>,
                  items = [], coins_got = 0, state = RUN, jp_last = False, sh_last = False,
                  cr_last = False\<rparr>
     = Some \<lparr>tilemap = [''   '', '' ^ '', ''XXX''],
             player = (Player 76 96)\<lparr>inv_t := 1\<rparr>,
             items = [], coins_got = 0, state = RUN, jp_last = False, sh_last = False,
             cr_last = False\<rparr>
   \<and> (\<exists>g'. pickup_items \<lparr>tilemap = [''   '', '' ^ '', ''XXX''],
                  player = (Player 76 96)\<lparr>inv_t := 1\<rparr>,
                  items = [(MushroomItem 100 56 1)\<lparr>m_state := Active\<rparr>],
                  coins_got = 0, state = RUN, jp_last = False, sh_last = False,
                  cr_last = False\<rparr> = Some g'
          \<and> items g' = [] \<and> player g' = (Player 76 96)\<lparr>inv_t := 1\<rparr>)"
proof -
  let ?tm = "[''   '', '' ^M'', ''XXX'']"
  let ?tm2 = "[''   '', '' ^ '', ''XXX'']"
  let ?p = "(Player 76 96)\<lparr>inv_t := 1\<rparr>"
  let ?g = "\<lparr>tilemap = ?tm, player = ?p, items = [], coins_got = 0, state = RUN,
             jp_last = False, sh_last = False, cr_last = False\<rparr>"
  let ?i = "(MushroomItem 100 56 1)\<lparr>m_state := Active\<rparr>"
  let ?g2 = "\<lparr>tilemap = ?tm2, player = ?p, items = [?i], coins_got = 0, state = RUN,
              jp_last = False, sh_last = False, cr_last = False\<rparr>"
  have h: "rect_grid ?tm" by (simp add: rect_grid_def)
  have h1: "rect_grid (tilemap ?g)" and h2: "rect_grid (tilemap ?g2)"
    by (simp_all add: rect_grid_def)
  have cg: "cannot_grow ?tm ?p" by code_simp
  have cg1: "cannot_grow (tilemap ?g) (player ?g)" using cg by simp
  have cg2: "cannot_grow (tilemap ?g2) (player ?g2)" by code_simp
  have t: "touched (player_rect (player ?g2)) ?i" by code_simp
  have sc: "scan_tiles ?g = Some (?g\<lparr>tilemap := ?tm2\<rparr>)" by code_simp
  from mushroom_consumed_even_when_growth_fails[OF h1] cg1
  have cp: "collect_powerup ''mushroom'' (tilemap ?g) (player ?g) = Some (False, player ?g)"
    by blast
  from mushroom_consumed_even_when_growth_fails[OF h2] cg2 t
  have "\<exists>g'. pickup_items ?g2 = Some g' \<and> items g' = [] \<and> player g' = ?p"
    by auto
  then show ?thesis using h cg sc by simp
qed

text \<open>
  C10 as stated fails: the player overlaps a goal tile and the mushroom tile next to
  it; the scan reaches the goal first, the session is won and the loop ends, and the
  mushroom tile is still there.
\<close>

theorem mushroom_survives_goal_contact:
  "player_rect (Player 40 48) = Rect 22 (- 4) 36 52
   \<and> colliderect (Rect 22 (- 4) 36 52) (tile_rect 1 0)
   \<and> cell [''FM '', ''XXX''] 1 0 = CHR ''M''
   \<and> scan_tiles \<lparr>tilemap = [''FM '', ''XXX''], player = Player 40 48, items = [],
                  coins_got = 0, state = RUN, jp_last = False, sh_last = False,
                  cr_last = False\<rparr>
     = Some \<lparr>tilemap = [''FM '', ''XXX''], player = Player 40 48, items = [],
             coins_got = 0, state = WIN, jp_last = False, sh_last = False,
             cr_last = False\<rparr>"
  by code_simp

section \<open>Saving and loading a level\<close>

lemma normalise_rows_rect:
  assumes "rect_grid level" "0 < grid_width level"
  shows "normalise_rows level = Some level"
proof -
  from assms(1) have ne: "level \<noteq> []"
    and len: "\<And>row. row \<in> set level \<Longrightarrow> length row = length (hd level)"
    unfolding rect_grid_def by blast+
  have "set (map length level) = {length (hd level)}"
  proof
    show "set (map length level) \<subseteq> {length (hd level)}"
      unfolding set_map using len by blast
    have "hd level \<in> set level" using ne by simp
    then have "length (hd level) \<in> length ` set level" by (rule imageI)
    then show "{length (hd level)} \<subseteq> set (map length level)" by simp
  qed
  then have "length ` set level = {length (hd level)}" by simp
  then have w: "Max (length ` set level) = length (hd level)" by simp
  have pos: "length (hd level) \<noteq> 0" using assms(2) by (simp add: grid_width_def)
  have "map (\<lambda>row. ljust row (length (hd level))) level = level"
  proof -
    have "ljust row (length (hd level)) = row" if "row \<in> set level" for row
      using len[OF that] by (simp add: ljust_def)
    then have "map (\<lambda>row. ljust row (length (hd level))) level = map (\<lambda>row. row) level"
      by (intro map_cong refl)
    then show ?thesis by simp
  qed
  then show ?thesis
    using ne pos by (simp add: normalise_rows_def w Let_def)
qed

lemma str_of_JStr: "map (str_of py_str \<circ> JStr) rows = rows"
  by (induction rows) (simp_all add: str_of_def)

text \<open>
  C9 (amended). For every non-empty grid of rows of equal positive length and every
  path that ends in \<^verbatim>\<open>.json\<close> in any letter case, loading the file that \<^verbatim>\<open>save_level\<close>
  has written at that path returns exactly the rows that were saved.
\<close>

theorem save_then_load_json_path:
  assumes "rect_grid level" "0 < grid_width level" "endswith (lower path) ''.json''"
  shows "load_level_file py_str path (save_level level path fs) = Inr (Some level)"
proof -
  from assms(1) have ne: "level \<noteq> []" unfolding rect_grid_def by blast
  note n = normalise_rows_rect[OF assms(1,2)]
  have t: "truthy (JList (map JStr level))" using ne by simp
  have d: "dict_get [(''tiles'', JList (map JStr level))] ''tiles'' = JList (map JStr level)"
    by (simp add: dict_get_def)
  show ?thesis
    using assms(3) t
    by (simp add: load_level_file_def save_level_def n write_json_def Let_def d py_or_def
        str_of_JStr)
qed

theorem save_then_load_json_path_witness:
  "rect_grid [''X '', ''=C''] \<and> 0 < grid_width [''X '', ''=C'']
   \<and> endswith (lower ''custom_level.JSON'') ''.json''
   \<and> load_level_file (json_text 0) ''custom_level.JSON''
        (save_level [''X '', ''=C''] ''custom_level.JSON'' Map.empty)
      = Inr (Some [''X '', ''=C''])"
proof -
  have h1: "rect_grid [''X '', ''=C'']" by (simp add: rect_grid_def)
  have h2: "0 < grid_width [''X '', ''=C'']" by (simp add: grid_width_def)
  have h3: "endswith (lower ''custom_level.JSON'') ''.json''" by code_simp
  show ?thesis
    using h1 h2 h3 save_then_load_json_path[OF h1 h2 h3, of "json_text 0" Map.empty] by simp
qed

text \<open>
  C9 as stated fails: \<^verbatim>\<open>save_level\<close> writes JSON whatever the path, and a path that does
  not end in \<^verbatim>\<open>.json\<close> is loaded as plain text. The one-tile grid saved to
  \<^verbatim>\<open>level.txt\<close> comes back as the five lines of the JSON document, padded to the width
  of the longest.
\<close>

theorem save_then_load_text_path:
  "rect_grid [''X''] \<and> 0 < grid_width [''X'']
   \<and> load_level_file (json_text 0) ''level.txt'' (save_level [''X''] ''level.txt'' Map.empty)
      = Inr (Some [''{           '',
                   [CHR '' '', CHR '' '', CHR 0x22, CHR ''t'', CHR ''i'', CHR ''l'', CHR ''e'',
                    CHR ''s'', CHR 0x22, CHR '':'', CHR '' '', CHR ''[''],
                   [CHR '' '', CHR '' '', CHR '' '', CHR '' '', CHR 0x22, CHR ''X'', CHR 0x22,
                    CHR '' '', CHR '' '', CHR '' '', CHR '' '', CHR '' ''],
                   ''  ]         '',
                   ''}           ''])
   \<and> load_level_file (json_text 0) ''level.txt'' (save_level [''X''] ''level.txt'' Map.empty)
      \<noteq> Inr (Some [''X''])"
proof -
  have e: "load_level_file (json_text 0) ''level.txt'' (save_level [''X''] ''level.txt'' Map.empty)
      = Inr (Some [''{           '',
                   [CHR '' '', CHR '' '', CHR 0x22, CHR ''t'', CHR ''i'', CHR ''l'', CHR ''e'',
                    CHR ''s'', CHR 0x22, CHR '':'', CHR '' '', CHR ''[''],
                   [CHR '' '', CHR '' '', CHR '' '', CHR '' '', CHR 0x22, CHR ''X'', CHR 0x22,
                    CHR '' '', CHR '' '', CHR '' '', CHR '' '', CHR '' ''],
                   ''  ]         '',
                   ''}           ''])"
    by code_simp
  have g: "rect_grid [''X''] \<and> 0 < grid_width [''X'']"
    by (simp add: rect_grid_def grid_width_def)
  show ?thesis unfolding e using g by simp
qed

section \<open>Runs of several frames\<close>

lemma run_frames_add:
  "run_frames (m + n) dt raw g = run_frames m dt raw g \<bind> run_frames n dt raw"
proof (induction m arbitrary: g)
  case 0
  show ?case by simp
next
  case (Suc m)
  show ?case
  proof (cases "update_player_part dt raw g")
    case None
    then show ?thesis by simp
  next
    case (Some g1)
    then show ?thesis using Suc.IH[of g1] by simp
  qed
qed

text \<open>
  C2. The trigger sets the deceleration to \<open>min(CROUCH_SLIDE_DECEL_BASE, v0\<^sup>2 / (2 *
  CROUCH_SLIDE_MIN_DIST))\<close> and the duration to \<open>max(CROUCH_SLIDE_TIME_BASE, v0 /
  deceleration)\<close>, as claimed, but the distance travelled until the speed reaches and holds
  zero is not always at least \<open>CROUCH_SLIDE_MIN_DIST\<close>. A player sprinting at the top speed
  \<open>v0 = 486\<close> presses crouch on a flat floor, no direction key held, at 25 frames a second.
  The trigger frame sets the deceleration \<open>6561 / 5\<close> and the duration \<open>10 / 27\<close> from
  \<open>v0 = 486\<close>, and in the same frame the crouch ends the sprint and the speed clamp cuts
  the speed to \<open>MAX_SPEED = 360\<close>. After eight frames the speed is zero, it is still zero
  after ten, the player is grounded after each frame, and the distance travelled is
  \<open>489719 / 3125 - 100\<close>, less than 57 pixels, where \<open>CROUCH_SLIDE_MIN_DIST\<close> is 90.
\<close>

theorem crouch_slide_stops_short:
  "map_option (crouch_slide_decel \<circ> player) (run_frames 1 (1 / 25) crouch_keys sprint_start)
     = Some (min CROUCH_SLIDE_DECEL_BASE (486 * 486 / (2 * max 1 CROUCH_SLIDE_MIN_DIST)))
   \<and> map_option (crouch_slide_decel \<circ> player) (run_frames 1 (1 / 25) crouch_keys sprint_start)
     = Some (6561 / 5)
   \<and> map_option (crouch_slide_t \<circ> player) (run_frames 1 (1 / 25) crouch_keys sprint_start)
     = Some (max CROUCH_SLIDE_TIME_BASE (486 / max 1 (6561 / 5)))
   \<and> map_option (vx \<circ> player) (run_frames 1 (1 / 25) crouch_keys sprint_start) = Some 360
   \<and> map_option (vx \<circ> player) (run_frames 8 (1 / 25) crouch_keys sprint_start) = Some 0
   \<and> map_option (vx \<circ> player) (run_frames 10 (1 / 25) crouch_keys sprint_start) = Some 0
   \<and> map_option (pos_x \<circ> player) (run_frames 8 (1 / 25) crouch_keys sprint_start)
     = Some (489719 / 3125)
   \<and> map_option (pos_x \<circ> player) (run_frames 10 (1 / 25) crouch_keys sprint_start)
     = Some (489719 / 3125)
   \<and> 489719 / 3125 - pos_x (player sprint_start) < CROUCH_SLIDE_MIN_DIST"
proof -
  let ?tm = "[''        '', ''        '', ''XXXXXXXX'']"
  let ?p4 =
    "\<lparr>pos_x = 453134 / 3125, pos_y = 96, pw = 36, h_stand = 52,
      h_crouch = 34, ph = 34, form = Small, vx = 25317 / 125, vy = 0,
      on_ground = True, since_ground = 0, jump_buf = 0, facing = 1,
      trail = [], dash_t = 0, dash_cd = 0, inv_t = 0, dash_dir = 0,
      sprint = False, crouch = True, dash_lock = False,
      dash_unlocked = False, skid_t = 0, skid_dir = 0, visual_tilt = 0,
      crouch_slide_t = 169 / 675, crouch_slide_decel = 6561 / 5,
      crouch_slide_dir = 1, coins = 0, power_flash = 0\<rparr>"
  let ?g4 =
    "\<lparr>tilemap = ?tm, player = ?p4, items = [], coins_got = 0, state = RUN,
      jp_last = False, sh_last = True, cr_last = True\<rparr>"
  let ?g8 =
    "\<lparr>tilemap = ?tm,
      player = ?p4\<lparr>pos_x := 489719 / 3125, vx := 0, crouch_slide_t := 61 / 675\<rparr>,
      items = [], coins_got = 0, state = RUN,
      jp_last = False, sh_last = True, cr_last = True\<rparr>"
  let ?g10 =
    "\<lparr>tilemap = ?tm,
      player = ?p4\<lparr>pos_x := 489719 / 3125, vx := 0, crouch_slide_t := 7 / 675\<rparr>,
      items = [], coins_got = 0, state = RUN,
      jp_last = False, sh_last = True, cr_last = True\<rparr>"
  have f1: "map_option (\<lambda>g. (crouch_slide_decel (player g), crouch_slide_t (player g),
                vx (player g))) (run_frames 1 (1 / 25) crouch_keys sprint_start)
              = Some (6561 / 5, 10 / 27, 360)"
    by code_simp
  have a: "run_frames 4 (1 / 25) crouch_keys sprint_start = Some ?g4"
    by code_simp
  have b: "run_frames 4 (1 / 25) crouch_keys ?g4 = Some ?g8"
    by code_simp
  have c: "run_frames 2 (1 / 25) crouch_keys ?g8 = Some ?g10"
    by code_simp
  have r8: "run_frames 8 (1 / 25) crouch_keys sprint_start = Some ?g8"
    using run_frames_add[of 4 4 "1 / 25" crouch_keys sprint_start] a b by simp
  have r10: "run_frames 10 (1 / 25) crouch_keys sprint_start = Some ?g10"
    using run_frames_add[of 8 2 "1 / 25" crouch_keys sprint_start] r8 c by simp
  have d1: "map_option (crouch_slide_decel \<circ> player)
              (run_frames 1 (1 / 25) crouch_keys sprint_start) = Some (6561 / 5)"
    and t1: "map_option (crouch_slide_t \<circ> player)
              (run_frames 1 (1 / 25) crouch_keys sprint_start) = Some (10 / 27)"
    and v1: "map_option (vx \<circ> player)
              (run_frames 1 (1 / 25) crouch_keys sprint_start) = Some 360"
    using f1 by (auto simp: map_option_case split: option.splits)
  have m1: "min CROUCH_SLIDE_DECEL_BASE (486 * 486 / (2 * max 1 CROUCH_SLIDE_MIN_DIST))
              = (6561 / 5 :: real)"
    by (simp add: CROUCH_SLIDE_DECEL_BASE_def CROUCH_SLIDE_MIN_DIST_def)
  have m2: "max CROUCH_SLIDE_TIME_BASE (486 / max 1 (6561 / 5)) = (10 / 27 :: real)"
    by (simp add: CROUCH_SLIDE_TIME_BASE_def)
  have s: "489719 / 3125 - pos_x (player sprint_start) < CROUCH_SLIDE_MIN_DIST"
    by (simp add: sprint_start_def Player_def CROUCH_SLIDE_MIN_DIST_def)
  show ?thesis
    unfolding m1 m2 r8 r10 using d1 t1 v1 s by simp
qed

text \<open>
  C1. A pending jump request is not executed on landing. A player coming down from a jump, past the
  coyote time, presses jump just above the floor and keeps the key pressed, at 16
  milliseconds a frame. After the first frame the player is still in the air with the
  buffer armed at \<open>JUMP_BUFFER = 3 / 25\<close>; after the second the player has landed, is
  grounded, and the buffer still holds \<open>13 / 125\<close>, yet the vertical speed is zero and the
  feet are on the floor: the frame tried no jump, since its \<^verbatim>\<open>jump_pressed\<close> was not set. A
  call of \<^verbatim>\<open>try_jump\<close> in that state would have jumped. After ten frames the buffer has run
  out and the player is still on the floor.
\<close>

theorem buffered_jump_not_executed_on_landing:
  "map_option (on_ground \<circ> player) (run_frames 1 (2 / 125) jump_keys fall_start) = Some False
   \<and> map_option (jump_buf \<circ> player) (run_frames 1 (2 / 125) jump_keys fall_start)
     = Some JUMP_BUFFER
   \<and> map_option (on_ground \<circ> player) (run_frames 2 (2 / 125) jump_keys fall_start) = Some True
   \<and> map_option (jump_buf \<circ> player) (run_frames 2 (2 / 125) jump_keys fall_start)
     = Some (13 / 125)
   \<and> map_option (vy \<circ> player) (run_frames 2 (2 / 125) jump_keys fall_start) = Some 0
   \<and> map_option (pos_y \<circ> player) (run_frames 2 (2 / 125) jump_keys fall_start) = Some 96
   \<and> map_option (fst \<circ> try_jump \<circ> player) (run_frames 2 (2 / 125) jump_keys fall_start)
     = Some True
   \<and> map_option (jump_buf \<circ> player) (run_frames 10 (2 / 125) jump_keys fall_start)
     = Some (- (1 / 125))
   \<and> map_option (pos_y \<circ> player) (run_frames 10 (2 / 125) jump_keys fall_start) = Some 96"
proof -
  let ?tm = "[''        '', ''        '', ''XXXXXXXX'']"
  let ?p2 =
    "\<lparr>pos_x = 100, pos_y = 96, pw = 36, h_stand = 52, h_crouch = 34,
      ph = 52, form = Small, vx = 0, vy = 0, on_ground = True,
      since_ground = 0, jump_buf = 13 / 125, facing = 1, trail = [],
      dash_t = 0, dash_cd = 0, inv_t = 0, dash_dir = 0, sprint = False,
      crouch = False, dash_lock = False, dash_unlocked = False,
      skid_t = 0, skid_dir = 0, visual_tilt = 0, crouch_slide_t = 0,
      crouch_slide_decel = 5200, crouch_slide_dir = 0, coins = 0,
      power_flash = 0\<rparr>"
  let ?g2 =
    "\<lparr>tilemap = ?tm, player = ?p2, items = [], coins_got = 0, state = RUN,
      jp_last = True, sh_last = False, cr_last = False\<rparr>"
  let ?g6 =
    "\<lparr>tilemap = ?tm, player = ?p2\<lparr>jump_buf := 1 / 25\<rparr>, items = [], coins_got = 0,
      state = RUN, jp_last = True, sh_last = False, cr_last = False\<rparr>"
  let ?g10 =
    "\<lparr>tilemap = ?tm, player = ?p2\<lparr>jump_buf := - (1 / 125)\<rparr>, items = [], coins_got = 0,
      state = RUN, jp_last = True, sh_last = False, cr_last = False\<rparr>"
  have f1: "map_option (\<lambda>g. (on_ground (player g), jump_buf (player g)))
              (run_frames 1 (2 / 125) jump_keys fall_start) = Some (False, 3 / 25)"
    by code_simp
  have a: "run_frames 2 (2 / 125) jump_keys fall_start = Some ?g2"
    by code_simp
  have b: "run_frames 4 (2 / 125) jump_keys ?g2 = Some ?g6"
    by code_simp
  have c: "run_frames 4 (2 / 125) jump_keys ?g6 = Some ?g10"
    by code_simp
  have r6: "run_frames 6 (2 / 125) jump_keys fall_start = Some ?g6"
    using run_frames_add[of 2 4 "2 / 125" jump_keys fall_start] a b by simp
  have r10: "run_frames 10 (2 / 125) jump_keys fall_start = Some ?g10"
    using run_frames_add[of 6 4 "2 / 125" jump_keys fall_start] r6 c by simp
  have o1: "map_option (on_ground \<circ> player)
              (run_frames 1 (2 / 125) jump_keys fall_start) = Some False"
    and j1: "map_option (jump_buf \<circ> player)
              (run_frames 1 (2 / 125) jump_keys fall_start) = Some JUMP_BUFFER"
    using f1 by (auto simp: map_option_case JUMP_BUFFER_def split: option.splits)
  have t: "fst (try_jump ?p2) = True"
    by (simp add: try_jump_def)
  show ?thesis
    unfolding a r10 using o1 j1 t by simp
qed

section \<open>Growing on a rectangular grid\<close>

text \<open>
  C6 (amended). For a small player on a rectangular grid, \<^verbatim>\<open>set_form("big", tilemap)\<close>
  returns true exactly when no solid, spike, gate or goal tile overlaps the core of the
  standing big hitbox, or none overlaps the core of the crouched big hitbox (the core is
  the hitbox without its four left, three right and one top pixel lines). On success the
  form and both heights are the big ones. When the core of the standing hitbox is clear
  the crouch flag is kept and the height follows it; when only the core of the crouched
  hitbox is clear the player is put into a crouch at the big crouch height; when neither
  is clear the call returns false and the player is unchanged. A hitbox that overlaps no
  blocking tile at all has a clear core; an overlap confined to the margins does not
  prevent growing.
\<close>

theorem set_form_big_iff_core_clear:
  assumes "rect_grid g" "form p = Small" "8 \<le> pw p"
  shows "\<exists>ok p'. set_form Big (Some g) p = Some (ok, p')
          \<and> (ok \<longleftrightarrow> \<not> hits_blocking g (core (hitbox p H_STAND_BIG))
                    \<or> \<not> hits_blocking g (core (hitbox p H_CROUCH_BIG)))
          \<and> (ok \<longrightarrow> form p' = Big \<and> h_stand p' = H_STAND_BIG \<and> h_crouch p' = H_CROUCH_BIG)
          \<and> (\<not> hits_blocking g (core (hitbox p H_STAND_BIG)) \<longrightarrow>
                crouch p' = crouch p \<and> ph p' = (if crouch p then H_CROUCH_BIG else H_STAND_BIG))
          \<and> (hits_blocking g (core (hitbox p H_STAND_BIG))
              \<and> \<not> hits_blocking g (core (hitbox p H_CROUCH_BIG)) \<longrightarrow>
                crouch p' \<and> ph p' = H_CROUCH_BIG)
          \<and> (hits_blocking g (core (hitbox p H_STAND_BIG))
              \<and> hits_blocking g (core (hitbox p H_CROUCH_BIG)) \<longrightarrow> \<not> ok \<and> p' = p)
          \<and> (\<not> hits_blocking g (hitbox p H_STAND_BIG)
                \<longrightarrow> \<not> hits_blocking g (core (hitbox p H_STAND_BIG)))
          \<and> (\<not> hits_blocking g (hitbox p H_CROUCH_BIG)
                \<longrightarrow> \<not> hits_blocking g (core (hitbox p H_CROUCH_BIG)))"
proof -
  have hs: "(2::int) \<le> H_STAND_BIG" and hc: "(2::int) \<le> H_CROUCH_BIG"
    by (simp_all add: H_STAND_BIG_def H_CROUCH_BIG_def)
  have fs: "fits g p H_STAND_BIG \<longleftrightarrow> \<not> hits_blocking g (core (hitbox p H_STAND_BIG))"
    by (rule fits_iff_core_clear[OF assms(1,3) hs])
  have fc: "fits g p H_CROUCH_BIG \<longleftrightarrow> \<not> hits_blocking g (core (hitbox p H_CROUCH_BIG))"
    by (rule fits_iff_core_clear[OF assms(1,3) hc])
  have szs: "8 \<le> rwidth (hitbox p H_STAND_BIG)" "2 \<le> rheight (hitbox p H_STAND_BIG)"
    using assms(3) hs by (simp_all add: hitbox_def Rect_def)
  have szc: "8 \<le> rwidth (hitbox p H_CROUCH_BIG)" "2 \<le> rheight (hitbox p H_CROUCH_BIG)"
    using assms(3) hc by (simp_all add: hitbox_def Rect_def)
  have ms: "\<not> hits_blocking g (hitbox p H_STAND_BIG)
             \<longrightarrow> \<not> hits_blocking g (core (hitbox p H_STAND_BIG))"
    using core_inside[OF szs] by blast
  have mc: "\<not> hits_blocking g (hitbox p H_CROUCH_BIG)
             \<longrightarrow> \<not> hits_blocking g (core (hitbox p H_CROUCH_BIG))"
    using core_inside[OF szc] by blast
  obtain ok p' where r: "set_form Big (Some g) p = Some (ok, p')"
    and c1: "ok \<longleftrightarrow> fits g p H_STAND_BIG \<or> fits g p H_CROUCH_BIG"
    and c2: "ok \<longrightarrow> form p' = Big \<and> h_stand p' = H_STAND_BIG \<and> h_crouch p' = H_CROUCH_BIG"
    and c3: "fits g p H_STAND_BIG \<longrightarrow>
                crouch p' = crouch p \<and> ph p' = (if crouch p then H_CROUCH_BIG else H_STAND_BIG)"
    and c4: "\<not> fits g p H_STAND_BIG \<and> fits g p H_CROUCH_BIG \<longrightarrow>
                crouch p' \<and> ph p' = H_CROUCH_BIG"
    and c5: "\<not> fits g p H_STAND_BIG \<and> \<not> fits g p H_CROUCH_BIG \<longrightarrow> \<not> ok \<and> p' = p"
    using set_form_big_cases[OF assms(1,2)] by blast
  show ?thesis
  proof (intro exI conjI)
    show "set_form Big (Some g) p = Some (ok, p')" by (rule r)
    show "ok \<longleftrightarrow> \<not> hits_blocking g (core (hitbox p H_STAND_BIG))
                    \<or> \<not> hits_blocking g (core (hitbox p H_CROUCH_BIG))"
      using c1 fs fc by simp
    show "ok \<longrightarrow> form p' = Big \<and> h_stand p' = H_STAND_BIG \<and> h_crouch p' = H_CROUCH_BIG"
      by (rule c2)
    show "\<not> hits_blocking g (core (hitbox p H_STAND_BIG)) \<longrightarrow>
                crouch p' = crouch p \<and> ph p' = (if crouch p then H_CROUCH_BIG else H_STAND_BIG)"
      using c3 fs by simp
    show "hits_blocking g (core (hitbox p H_STAND_BIG))
              \<and> \<not> hits_blocking g (core (hitbox p H_CROUCH_BIG)) \<longrightarrow>
                crouch p' \<and> ph p' = H_CROUCH_BIG"
      using c4 fs fc by simp
    show "hits_blocking g (core (hitbox p H_STAND_BIG))
              \<and> hits_blocking g (core (hitbox p H_CROUCH_BIG)) \<longrightarrow> \<not> ok \<and> p' = p"
      using c5 fs fc by simp
    show "\<not> hits_blocking g (hitbox p H_STAND_BIG)
                \<longrightarrow> \<not> hits_blocking g (core (hitbox p H_STAND_BIG))"
      by (rule ms)
    show "\<not> hits_blocking g (hitbox p H_CROUCH_BIG)
                \<longrightarrow> \<not> hits_blocking g (core (hitbox p H_CROUCH_BIG))"
      by (rule mc)
  qed
qed

theorem set_form_big_iff_core_clear_witness:
  "rect_grid [''XXX'', ''   '', ''XXX'']
   \<and> form ((Player 72 96)\<lparr>crouch := True, ph := H_CROUCH\<rparr>) = Small
   \<and> 8 \<le> pw ((Player 72 96)\<lparr>crouch := True, ph := H_CROUCH\<rparr>)
   \<and> hits_blocking [''XXX'', ''   '', ''XXX'']
        (core (hitbox ((Player 72 96)\<lparr>crouch := True, ph := H_CROUCH\<rparr>) H_STAND_BIG))
   \<and> \<not> hits_blocking [''XXX'', ''   '', ''XXX'']
        (core (hitbox ((Player 72 96)\<lparr>crouch := True, ph := H_CROUCH\<rparr>) H_CROUCH_BIG))
   \<and> (\<exists>p'. set_form Big (Some [''XXX'', ''   '', ''XXX''])
              ((Player 72 96)\<lparr>crouch := True, ph := H_CROUCH\<rparr>) = Some (True, p')
           \<and> form p' = Big \<and> crouch p' \<and> ph p' = H_CROUCH_BIG)"
proof -
  let ?g = "[''XXX'', ''   '', ''XXX'']"
  let ?p = "(Player 72 96)\<lparr>crouch := True, ph := H_CROUCH\<rparr>"
  have h1: "rect_grid ?g" by (simp add: rect_grid_def)
  have h2: "form ?p = Small" by (simp add: Player_def)
  have h3: "8 \<le> pw ?p" by (simp add: Player_def)
  have hs: "(2::int) \<le> H_STAND_BIG" and hc: "(2::int) \<le> H_CROUCH_BIG"
    by (simp_all add: H_STAND_BIG_def H_CROUCH_BIG_def)
  have f1: "\<not> fits ?g ?p H_STAND_BIG" by code_simp
  have f2: "fits ?g ?p H_CROUCH_BIG" by code_simp
  have b1: "hits_blocking ?g (core (hitbox ?p H_STAND_BIG))"
    using f1 fits_iff_core_clear[OF h1 h3 hs] by simp
  have b2: "\<not> hits_blocking ?g (core (hitbox ?p H_CROUCH_BIG))"
    using f2 fits_iff_core_clear[OF h1 h3 hc] by simp
  from set_form_big_iff_core_clear[OF h1 h2 h3] b1 b2
  have "\<exists>p'. set_form Big (Some ?g) ?p = Some (True, p')
           \<and> form p' = Big \<and> crouch p' \<and> ph p' = H_CROUCH_BIG"
    by auto
  then show ?thesis using h1 h2 h3 b1 b2 by blast
qed

text \<open>
  C6 as stated fails: a small standing player, clear of every tile, has a solid tile
  \<open>(1, 0)\<close> above and to the left, which the standing big hitbox would overlap by four
  pixel columns and eight rows; the crouched big hitbox would overlap nothing. Growing
  succeeds without the crouch, and the player's hitbox is now the standing big one,
  inside the tile.
\<close>

theorem grow_standing_into_overlap:
  "form (Player 110 110) = Small
   \<and> player_rect (Player 110 110) = Rect 92 58 36 52
   \<and> \<not> colliderect (Rect 92 58 36 52) (tile_rect 1 0)
   \<and> hitbox (Player 110 110) H_STAND_BIG = Rect 92 40 36 70
   \<and> hitbox (Player 110 110) H_CROUCH_BIG = Rect 92 64 36 46
   \<and> colliderect (Rect 92 40 36 70) (tile_rect 1 0)
   \<and> \<not> colliderect (Rect 92 64 36 46) (tile_rect 1 0)
   \<and> cell ['' X '', ''   '', ''   '', ''XXX''] 1 0 = CHR ''X'' \<and> solid CHR ''X''
   \<and> map_option fst
        (set_form Big (Some ['' X '', ''   '', ''   '', ''XXX'']) (Player 110 110))
      = Some True
   \<and> map_option (crouch \<circ> snd)
        (set_form Big (Some ['' X '', ''   '', ''   '', ''XXX'']) (Player 110 110))
      = Some False
   \<and> map_option (player_rect \<circ> snd)
        (set_form Big (Some ['' X '', ''   '', ''   '', ''XXX'']) (Player 110 110))
      = Some (Rect 92 40 36 70)"
  by code_simp

end
